(* ===== verification/JsPrelude.thy ===== *)
theory JsPrelude
  imports Complex_Main "HOL-Library.AList"
begin

text \<open>
  Shared vocabulary of the development: the part of the JavaScript language and of its standard
  library that the modelled sources use.

  \<^item> A string is the list of its UTF-16 code units (\<open>jstr\<close>); \<open>js\<close> writes an ASCII literal.
    Every operation is uniform in the code units, so no bound on them is needed.
  \<^item> A finite number is a rational (\<open>jsnum\<close>): arithmetic is exact, the rounding of IEEE doubles
    is not modelled. \<open>jnumber\<close> adds the non-finite values where the source tests for them.
  \<^item> A field or argument that may be absent or \<open>undefined\<close> is an option.
  \<^item> A \<open>Map\<close> is an association list in insertion order; a \<open>Set\<close> spread back into an array is
    \<open>uniq\<close>.
  \<^item> \<open>Array.prototype.sort\<close> is stable insertion by the comparator.
\<close>

section \<open>Collections of facts\<close>

named_theorems js_string \<open>unfolding of the string operations\<close>
named_theorems js_array \<open>unfolding of the array operations\<close>

section \<open>Numbers\<close>

type_synonym jsnum = rat

datatype jnumber = Fin jsnum | PosInf | NegInf | NaN

fun isFinite :: "jnumber \<Rightarrow> bool" where
  "isFinite (Fin _) = True"
| "isFinite _ = False"

definition Math_ceil :: "jsnum \<Rightarrow> jsnum" where
  "Math_ceil x = of_int \<lceil>x\<rceil>"

lemma Math_ceil_nonneg [simp]: "0 \<le> x \<Longrightarrow> 0 \<le> Math_ceil x"
  by (simp add: Math_ceil_def)

section \<open>Strings\<close>

type_synonym jchar = int
type_synonym jstr = "jchar list"

definition js :: "string \<Rightarrow> jstr" where
  "js s = map of_char s"

lemma inj_of_char: "inj (of_char :: char \<Rightarrow> int)"
  by (rule injI) simp

lemma js_inject [simp]: "js s = js t \<longleftrightarrow> s = t"
  by (simp add: js_def inj_of_char inj_map_eq_map)

lemma js_Nil [simp]: "js [] = []"
  by (simp add: js_def)

lemma js_eq_Nil [simp]: "js s = [] \<longleftrightarrow> s = []" and Nil_eq_js [simp]: "[] = js s \<longleftrightarrow> s = []"
  by (auto simp: js_def)

lemma length_js [simp]: "length (js s) = length s"
  by (simp add: js_def)

lemma js_append: "js (s @ t) = js s @ js t"
  by (simp add: js_def)

text \<open>\<open>s.startsWith(p)\<close>, \<open>s.endsWith(p)\<close>, \<open>s.slice(a, b)\<close> with \<open>0 \<le> a\<close>.\<close>

definition startsWith :: "jstr \<Rightarrow> jstr \<Rightarrow> bool" where
  [js_string]: "startsWith s p \<longleftrightarrow> take (length p) s = p"

definition endsWith :: "jstr \<Rightarrow> jstr \<Rightarrow> bool" where
  [js_string]: "endsWith s p \<longleftrightarrow> length p \<le> length s \<and> drop (length s - length p) s = p"

definition slice :: "'a list \<Rightarrow> nat \<Rightarrow> nat \<Rightarrow> 'a list" where
  [js_array]: "slice s a b = take (b - a) (drop a s)"

lemma startsWith_append [simp]: "startsWith (p @ s) p"
  by (simp add: startsWith_def)

lemma startsWith_Nil [simp]: "startsWith s []"
  by (simp add: startsWith_def)

lemma startsWith_split: "startsWith s p \<longleftrightarrow> (\<exists>r. s = p @ r)"
  by (metis append_eq_conv_conj append_take_drop_id startsWith_def)

lemma startsWith_refl [simp]: "startsWith s s"
  by (simp add: startsWith_def)

text \<open>\<open>s.indexOf(p)\<close>: the position of the first occurrence, \<open>None\<close> for \<open>-1\<close>.\<close>

fun index_of :: "jstr \<Rightarrow> jstr \<Rightarrow> nat option" where
  "index_of p [] = (if p = [] then Some 0 else None)"
| "index_of p (c # cs) = (if startsWith (c # cs) p then Some 0 else map_option Suc (index_of p cs))"

text \<open>\<open>s.indexOf(p, k)\<close>, the search from position \<open>k\<close>.\<close>

definition indexOf_from :: "jstr \<Rightarrow> jstr \<Rightarrow> nat \<Rightarrow> nat option" where
  "indexOf_from s p k = map_option (\<lambda>i. k + i) (index_of p (drop k s))"

definition str_includes :: "jstr \<Rightarrow> jstr \<Rightarrow> bool" where
  [js_string]: "str_includes s p \<longleftrightarrow> index_of p s \<noteq> None"

lemma index_of_SomeD: "index_of p s = Some i \<Longrightarrow> i + length p \<le> length s \<and> s = take i s @ p @ drop (i + length p) s"
proof (induction s arbitrary: i)
  case Nil
  then show ?case by (simp split: if_splits)
next
  case (Cons c cs)
  show ?case
  proof (cases "startsWith (c # cs) p")
    case True
    with Cons.prems have "i = 0" by simp
    with True show ?thesis
      by (metis append_Nil append_eq_conv_conj drop_0 length_append le_add1 plus_nat.add_0 startsWith_split take_0)
  next
    case False
    with Cons.prems obtain j where j: "index_of p cs = Some j" "i = Suc j" by auto
    with Cons.IH [of j] show ?thesis by simp
  qed
qed

lemma index_of_bound: "index_of p s = Some i \<Longrightarrow> i + length p \<le> length s"
  by (simp add: index_of_SomeD)

lemma includes_iff: "str_includes s p \<longleftrightarrow> (\<exists>a b. s = a @ p @ b)"
proof
  assume "str_includes s p"
  then obtain i where "index_of p s = Some i" by (auto simp: str_includes_def)
  then show "\<exists>a b. s = a @ p @ b" using index_of_SomeD by blast
next
  have occ: "str_includes (a @ p @ b) p" for a b
  proof (induction a)
    case Nil
    have "index_of p (p @ b) = Some 0" by (cases "p @ b") (auto, metis startsWith_append)
    then show ?case by (simp add: str_includes_def)
  next
    case (Cons c a)
    then show ?case by (auto simp: str_includes_def)
  qed
  assume "\<exists>a b. s = a @ p @ b"
  then show "str_includes s p" using occ by blast
qed

lemma not_includes_append1: "\<not> str_includes (s @ t) p \<Longrightarrow> \<not> str_includes s p"
  by (metis append.assoc includes_iff)

text \<open>
  The first occurrence of a pattern whose first unit does not occur in its rest: text without
  the pattern cannot make an earlier occurrence by running into it.
\<close>

lemma index_of_after_clean:
  assumes "p = c # q" and "c \<notin> set q" and "\<not> str_includes s p"
  shows "index_of p (s @ p @ r) = Some (length s)"
  using assms(3)
proof (induction s)
  case Nil
  have "startsWith (p @ r) p" by simp
  with assms(1) show ?case by (simp add: startsWith_def)
next
  case (Cons x s)
  have clean: "\<not> str_includes s p"
    using Cons.prems by (metis append_Cons includes_iff)
  have "\<not> startsWith ((x # s) @ p @ r) p"
  proof
    assume sw: "startsWith ((x # s) @ p @ r) p"
    show False
    proof (cases "length p \<le> length (x # s)")
      case True
      then have "take (length p) ((x # s) @ p @ r) = take (length p) (x # s)"
        by (simp only: take_append) simp
      with sw have "take (length p) (x # s) = p" by (simp only: startsWith_def)
      then have "str_includes (x # s) p"
        by (metis append_Nil append_take_drop_id includes_iff)
      with Cons.prems show False by simp
    next
      case False
      let ?n = "length (x # s)"
      have "((x # s) @ p @ r) ! ?n = c" using assms(1) by (simp add: nth_append)
      moreover have "((x # s) @ p @ r) ! ?n = p ! ?n"
        using sw False by (metis nth_take not_le startsWith_def)
      ultimately have "p ! ?n = c" by simp
      then have "q ! length s = c" using assms(1) by simp
      moreover have "length s < length q" using False assms(1) by simp
      ultimately show False using assms(2) nth_mem by metis
    qed
  qed
  with Cons.IH [OF clean] show ?case by simp
qed

lemma index_of_clean: "\<not> str_includes s p \<Longrightarrow> index_of p s = None"
  by (simp add: str_includes_def)

text \<open>White space and line terminators, as \<open>trim\<close> and \<open>\s\<close> read them.\<close>

definition is_ws :: "jchar \<Rightarrow> bool" where
  "is_ws c \<longleftrightarrow> c \<in> {9, 10, 11, 12, 13, 32, 160, 5760, 8232, 8233, 8239, 8287, 12288, 65279} \<or>
     (8192 \<le> c \<and> c \<le> 8202)"

definition trim :: "jstr \<Rightarrow> jstr" where
  [js_string]: "trim s = rev (dropWhile is_ws (rev (dropWhile is_ws s)))"

lemma trim_Nil [simp]: "trim [] = []"
  by (simp add: trim_def)

lemma length_dropWhile_le_prelude [simp]: "length (rev (dropWhile P xs)) \<le> length xs"
  by (simp add: length_dropWhile_le)

lemma length_trim: "length (trim s) \<le> length s"
  unfolding trim_def by (metis length_dropWhile_le length_rev order_trans)

lemma dropWhile_idem [simp]: "dropWhile P (dropWhile P xs) = dropWhile P xs"
  by (induction xs) auto

lemma dropWhile_hd_false: "xs \<noteq> [] \<Longrightarrow> \<not> P (hd xs) \<Longrightarrow> dropWhile P xs = xs"
  by (cases xs) auto

lemma trim_hd: "trim s \<noteq> [] \<Longrightarrow> \<not> is_ws (hd (trim s))"
proof -
  let ?d = "dropWhile is_ws s"
  assume ne: "trim s \<noteq> []"
  then have d: "?d \<noteq> []" by (metis dropWhile.simps(1) rev.simps(1) trim_def)
  then have h: "\<not> is_ws (hd ?d)" by (metis dropWhile_eq_Nil_conv hd_dropWhile)
  have "rev ?d = takeWhile is_ws (rev ?d) @ dropWhile is_ws (rev ?d)" by simp
  then have "?d = trim s @ rev (takeWhile is_ws (rev ?d))"
    by (metis rev_append rev_rev_ident trim_def)
  with ne h show ?thesis by (metis hd_append2)
qed

lemma trim_idem [simp]: "trim (trim s) = trim s"
proof (cases "trim s = []")
  case True
  then show ?thesis by simp
next
  case False
  then have "dropWhile is_ws (trim s) = trim s" by (simp add: dropWhile_hd_false trim_hd)
  then show ?thesis
    by (metis dropWhile_idem rev_rev_ident trim_def)
qed

lemma trim_eq_Nil: "trim s = [] \<longleftrightarrow> (\<forall>c \<in> set s. is_ws c)"
proof
  assume "trim s = []"
  then have "\<forall>c \<in> set (dropWhile is_ws s). is_ws c" by (simp add: trim_def dropWhile_eq_Nil_conv)
  moreover have "set s = set (takeWhile is_ws s) \<union> set (dropWhile is_ws s)"
    by (metis set_append takeWhile_dropWhile_id)
  ultimately show "\<forall>c \<in> set s. is_ws c" by (auto dest: set_takeWhileD)
next
  assume "\<forall>c \<in> set s. is_ws c"
  then have "dropWhile is_ws s = []" by (simp add: dropWhile_eq_Nil_conv)
  then show "trim s = []" by (simp only: trim_def dropWhile.simps rev.simps)
qed

text \<open>\<open>parts.join(sep)\<close> and \<open>s.split(c)\<close> at a single unit.\<close>

fun join :: "jstr \<Rightarrow> jstr list \<Rightarrow> jstr" where
  "join sep [] = []"
| "join sep [x] = x"
| "join sep (x # y # zs) = x @ sep @ join sep (y # zs)"

fun split_on :: "jchar \<Rightarrow> jstr \<Rightarrow> jstr list" where
  "split_on c [] = [[]]"
| "split_on c (x # xs) =
     (case split_on c xs of
        [] \<Rightarrow> [[]]
      | p # ps \<Rightarrow> (if x = c then [] # p # ps else (x # p) # ps))"

lemma split_on_ne [simp]: "split_on c s \<noteq> []"
  by (induction s) (auto split: list.splits)

lemma join_Cons_ne: "ps \<noteq> [] \<Longrightarrow> join sep (p # ps) = p @ sep @ join sep ps"
  by (cases ps) auto

lemma join_split_on: "join [c] (split_on c s) = s"
proof (induction s)
  case Nil
  then show ?case by simp
next
  case (Cons x xs)
  obtain p ps where eq: "split_on c xs = p # ps" by (cases "split_on c xs") auto
  show ?case
  proof (cases ps)
    case Nil
    with eq Cons.IH show ?thesis by simp
  next
    case (Cons q qs)
    with eq Cons.IH show ?thesis by simp
  qed
qed

lemma split_on_no_sep: "c \<notin> set p \<Longrightarrow> split_on c p = [p]"
  by (induction p) auto

lemma split_on_append_sep: "c \<notin> set p \<Longrightarrow> split_on c (p @ c # s) = p # split_on c s"
proof (induction p)
  case Nil
  then show ?case by (simp split: list.splits)
next
  case (Cons x p)
  then show ?case by simp
qed

lemma split_on_join:
  "ps \<noteq> [] \<Longrightarrow> \<forall>p \<in> set ps. c \<notin> set p \<Longrightarrow> split_on c (join [c] ps) = ps"
  by (induction "[c]" ps rule: join.induct) (auto simp: split_on_no_sep split_on_append_sep)

lemma split_on_parts: "p \<in> set (split_on c s) \<Longrightarrow> c \<notin> set p"
  by (induction s arbitrary: p) (auto split: list.splits if_splits)

section \<open>Arrays\<close>

text \<open>\<open>xs.findIndex(p)\<close>, \<open>None\<close> for \<open>-1\<close>, and \<open>xs.find(p)\<close> (the library's \<^const>\<open>List.find\<close>).\<close>

fun findIndex :: "('a \<Rightarrow> bool) \<Rightarrow> 'a list \<Rightarrow> nat option" where
  "findIndex P [] = None"
| "findIndex P (x # xs) = (if P x then Some 0 else map_option Suc (findIndex P xs))"

lemma findIndex_None: "findIndex P xs = None \<longleftrightarrow> (\<forall>x \<in> set xs. \<not> P x)"
  by (induction xs) auto

lemma findIndex_Some:
  "findIndex P xs = Some i \<longleftrightarrow> i < length xs \<and> P (xs ! i) \<and> (\<forall>j < i. \<not> P (xs ! j))"
proof (induction xs arbitrary: i)
  case Nil
  then show ?case by simp
next
  case (Cons x xs)
  show ?case
  proof (cases i)
    case 0
    then show ?thesis by simp
  next
    case (Suc k)
    have "(\<forall>j < Suc k. \<not> P ((x # xs) ! j)) \<longleftrightarrow> \<not> P x \<and> (\<forall>j < k. \<not> P (xs ! j))"
      by (auto simp: less_Suc_eq_0_disj)
    with Suc Cons.IH [of k] show ?thesis by auto
  qed
qed

text \<open>The index of the last element that satisfies \<open>P\<close>, for the loops that count down.\<close>

fun findLastIndex :: "('a \<Rightarrow> bool) \<Rightarrow> 'a list \<Rightarrow> nat option" where
  "findLastIndex P [] = None"
| "findLastIndex P (x # xs) =
     (case findLastIndex P xs of
        Some i \<Rightarrow> Some (Suc i)
      | None \<Rightarrow> (if P x then Some 0 else None))"

lemma findLastIndex_None: "findLastIndex P xs = None \<longleftrightarrow> (\<forall>x \<in> set xs. \<not> P x)"
  by (induction xs) (auto split: option.splits)

lemma findLastIndex_SomeD:
  "findLastIndex P xs = Some i \<Longrightarrow>
     i < length xs \<and> P (xs ! i) \<and> (\<forall>j. i < j \<longrightarrow> j < length xs \<longrightarrow> \<not> P (xs ! j))"
proof (induction xs arbitrary: i)
  case Nil
  then show ?case by simp
next
  case (Cons x xs)
  show ?case
  proof (cases "findLastIndex P xs")
    case None
    with Cons.prems have i: "i = 0" and Px: "P x" by (auto split: if_splits)
    from None have "\<forall>y \<in> set xs. \<not> P y" by (simp add: findLastIndex_None)
    with i Px show ?thesis by (auto simp: nth_Cons split: nat.splits)
  next
    case (Some k)
    with Cons.prems have "i = Suc k" by simp
    with Cons.IH [OF Some] show ?thesis by (auto simp: nth_Cons split: nat.splits)
  qed
qed

text \<open>\<open>[...new Set(xs)]\<close>: the elements in the order of their first occurrence.\<close>

fun uniq :: "'a list \<Rightarrow> 'a list" where
  "uniq [] = []"
| "uniq (x # xs) = x # removeAll x (uniq xs)"

lemma set_uniq [simp]: "set (uniq xs) = set xs"
  by (induction xs) auto

lemma distinct_removeAll_prelude: "distinct xs \<Longrightarrow> distinct (removeAll x xs)"
  by (simp add: distinct_removeAll)

lemma distinct_uniq [simp]: "distinct (uniq xs)"
  by (induction xs) (auto simp: distinct_removeAll)

lemma uniq_distinct: "distinct xs \<Longrightarrow> uniq xs = xs"
  by (induction xs) (auto simp: removeAll_id)

lemma uniq_idem [simp]: "uniq (uniq xs) = uniq xs"
  by (simp add: uniq_distinct)

text \<open>\<open>xs.sort(cmp)\<close>: the stable sort; a comparator is given by its "not after" test.\<close>

fun insert_by :: "('a \<Rightarrow> 'a \<Rightarrow> bool) \<Rightarrow> 'a \<Rightarrow> 'a list \<Rightarrow> 'a list" where
  "insert_by le x [] = [x]"
| "insert_by le x (y # ys) = (if le x y then x # y # ys else y # insert_by le x ys)"

definition sort_by :: "('a \<Rightarrow> 'a \<Rightarrow> bool) \<Rightarrow> 'a list \<Rightarrow> 'a list" where
  [js_array]: "sort_by le xs = foldr (insert_by le) xs []"

lemma sort_by_simps [simp]: "sort_by le [] = []" "sort_by le (x # xs) = insert_by le x (sort_by le xs)"
  by (simp_all add: sort_by_def)

lemma set_insert_by [simp]: "set (insert_by le x xs) = insert x (set xs)"
  by (induction xs) auto

lemma set_sort_by [simp]: "set (sort_by le xs) = set xs"
  by (induction xs) auto

lemma length_insert_by [simp]: "length (insert_by le x xs) = Suc (length xs)"
  by (induction xs) auto

lemma length_sort_by [simp]: "length (sort_by le xs) = length xs"
  by (induction xs) auto

lemma distinct_insert_by: "distinct (insert_by le x xs) \<longleftrightarrow> x \<notin> set xs \<and> distinct xs"
  by (induction xs) auto

lemma distinct_sort_by [simp]: "distinct (sort_by le xs) \<longleftrightarrow> distinct xs"
  by (induction xs) (auto simp: distinct_insert_by)

lemma sum_list_insert_by:
  "sum_list (map f (insert_by le x xs)) = f x + sum_list (map (f :: 'a \<Rightarrow> 'b::comm_monoid_add) xs)"
  by (induction xs) (auto simp: ac_simps)

lemma sum_list_sort_by [simp]:
  "sum_list (map f (sort_by le xs)) = sum_list (map (f :: 'a \<Rightarrow> 'b::comm_monoid_add) xs)"
  by (induction xs) (auto simp: sum_list_insert_by)

lemma sorted_insert_by:
  assumes "\<And>a b. le a b \<or> le b a" and "\<And>a b c. le a b \<Longrightarrow> le b c \<Longrightarrow> le a c"
  shows "sorted_wrt le xs \<Longrightarrow> sorted_wrt le (insert_by le x xs)"
proof (induction xs)
  case Nil
  then show ?case by simp
next
  case (Cons y ys)
  then show ?case using assms by auto
qed

lemma sorted_sort_by:
  assumes "\<And>a b. le a b \<or> le b a" and "\<And>a b c. le a b \<Longrightarrow> le b c \<Longrightarrow> le a c"
  shows "sorted_wrt le (sort_by le xs)"
  by (induction xs) (auto intro: sorted_insert_by [of le, OF assms])

section \<open>Maps\<close>

text \<open>
  The contract of a \<open>Map\<close>: what a read returns after a write or a removal. The clients of the
  development only rely on these laws; \<open>Map\<close> itself is the association list below.
\<close>

locale js_map =
  fixes get :: "'m \<Rightarrow> 'k \<Rightarrow> 'v option"
    and put :: "'k \<Rightarrow> 'v \<Rightarrow> 'm \<Rightarrow> 'm"
    and rem :: "'k \<Rightarrow> 'm \<Rightarrow> 'm"
    and empty :: 'm
  assumes get_empty: "get empty k = None"
    and get_put: "get (put k v m) k' = (if k' = k then Some v else get m k')"
    and get_rem: "get (rem k m) k' = (if k' = k then None else get m k')"
begin

text \<open>\<open>map.set(k, f(map.get(k) ?? d))\<close>, the read-modify-write the sources are full of.\<close>

definition upsert :: "'k \<Rightarrow> 'v \<Rightarrow> ('v \<Rightarrow> 'v) \<Rightarrow> 'm \<Rightarrow> 'm" where
  "upsert k d f m = put k (f (case get m k of None \<Rightarrow> d | Some v \<Rightarrow> v)) m"

lemma get_upsert:
  "get (upsert k d f m) k' = (if k' = k then Some (f (case get m k of None \<Rightarrow> d | Some v \<Rightarrow> v)) else get m k')"
  by (simp add: upsert_def get_put)

lemma upsert_other: "k' \<noteq> k \<Longrightarrow> get (upsert k d f m) k' = get m k'"
  by (simp add: get_upsert)

lemma upsert_upsert:
  "get (upsert k d g (upsert k d f m)) k = Some (g (f (case get m k of None \<Rightarrow> d | Some v \<Rightarrow> v)))"
  by (simp add: get_upsert)

lemma put_put: "get (put k v (put k w m)) = get (put k v m)"
  by (rule ext) (simp add: get_put)

end

text \<open>\<open>Map.get\<close>, \<open>Map.set\<close>, \<open>Map.delete\<close>, in insertion order.\<close>

type_synonym ('k, 'v) jmap = "('k \<times> 'v) list"

definition map_get :: "('k, 'v) jmap \<Rightarrow> 'k \<Rightarrow> 'v option" where
  "map_get m k = map_of m k"

definition map_set :: "'k \<Rightarrow> 'v \<Rightarrow> ('k, 'v) jmap \<Rightarrow> ('k, 'v) jmap" where
  "map_set k v m = AList.update k v m"

definition map_delete :: "'k \<Rightarrow> ('k, 'v) jmap \<Rightarrow> ('k, 'v) jmap" where
  "map_delete k m = AList.delete k m"

interpretation jm: js_map map_get map_set map_delete "[]"
  by unfold_locales (auto simp: map_get_def map_set_def map_delete_def update_conv' delete_conv' fun_upd_apply)

definition map_keys :: "('k, 'v) jmap \<Rightarrow> 'k list" where
  "map_keys m = map fst m"

lemma map_keys_distinct_set: "distinct (map_keys m) \<Longrightarrow> distinct (map_keys (map_set k v m))"
  by (simp add: map_keys_def map_set_def distinct_update)

lemma set_map_keys_set [simp]: "set (map_keys (map_set k v m)) = insert k (set (map_keys m))"
  by (auto simp: map_keys_def map_set_def dom_map_of_conv_image_fst [symmetric] update_conv')

lemma map_get_None: "map_get m k = None \<longleftrightarrow> k \<notin> set (map_keys m)"
  by (simp add: map_get_def map_keys_def map_of_eq_None_iff)

section \<open>Absent values\<close>

text \<open>A flag is set when it is present and true (\<open>if (message.flag)\<close>).\<close>

definition truthy :: "bool option \<Rightarrow> bool" where
  "truthy b \<longleftrightarrow> b = Some True"

lemma truthy_simps [simp]: "truthy None = False" "truthy (Some b) = b"
  by (auto simp: truthy_def)

text \<open>\<open>a || b\<close> and \<open>a ?? b\<close> on strings and on optional values.\<close>

definition or_str :: "jstr \<Rightarrow> jstr \<Rightarrow> jstr" where
  "or_str a b = (if a = [] then b else a)"

definition opt_str :: "jstr option \<Rightarrow> jstr" where
  "opt_str a = (case a of None \<Rightarrow> [] | Some s \<Rightarrow> s)"

definition nullish :: "'a option \<Rightarrow> 'a option \<Rightarrow> 'a option" where
  "nullish a b = (case a of None \<Rightarrow> b | Some x \<Rightarrow> Some x)"

definition nullish_or :: "'a option \<Rightarrow> 'a \<Rightarrow> 'a" where
  "nullish_or a b = (case a of None \<Rightarrow> b | Some x \<Rightarrow> x)"

lemma or_opt_simps [simp]:
  "or_str [] b = b" "a \<noteq> [] \<Longrightarrow> or_str a b = a" "opt_str None = []" "opt_str (Some s) = s"
  "nullish None c = c" "nullish (Some x) c = Some x" "nullish_or None y = y" "nullish_or (Some x) y = x"
  by (auto simp: or_str_def opt_str_def nullish_def nullish_or_def)

section \<open>Reachability\<close>

text \<open>
  The interface between a component given by its steps and a property of its runs: an invariant
  holds initially and every step keeps it. The client obtains that it holds in every reachable
  state and that a run from such a state stays inside.
\<close>

inductive reaches :: "('s \<Rightarrow> 's \<Rightarrow> bool) \<Rightarrow> 's \<Rightarrow> 's \<Rightarrow> bool" for step where
  reaches_refl: "reaches step s s"
| reaches_step: "reaches step s t \<Longrightarrow> step t u \<Longrightarrow> reaches step s u"

locale kept_invariant =
  fixes step :: "'s \<Rightarrow> 's \<Rightarrow> bool"
    and inv :: "'s \<Rightarrow> bool"
  assumes step_keeps: "inv s \<Longrightarrow> step s t \<Longrightarrow> inv t"
begin

lemma run_keeps: "reaches step s t \<Longrightarrow> inv s \<Longrightarrow> inv t"
  by (induction rule: reaches.induct) (auto intro: step_keeps)

end

end
