(* ===== verification/Json.thy ===== *)
theory Json
  imports JsPrelude
begin

text \<open>
  \<open>JSON.parse\<close> and \<open>JSON.stringify\<close> on JavaScript strings, as the sources use them: values are
  trees with insertion-ordered objects, the parser is the grammar of ECMA-404 by recursive
  descent (\<open>None\<close> is the thrown \<open>SyntaxError\<close>), and the printer takes the indentation argument of
  \<open>JSON.stringify(value, null, n)\<close>. The parser runs on fuel; twice the length of the
  input and two is enough, and more fuel never changes the result. Printing and parsing back gives the
  value again for every serialisable value whose numbers print in positional notation. Objects
  list their keys in the order of insertion; JavaScript's reordering of keys that are array indices
  is left out, since no modelled code depends on the order of such keys.
\<close>

section \<open>Values\<close>

datatype json =
    JNull
  | JBool bool
  | JNum jsnum
  | JStr jstr
  | JArr "json list"
  | JObj "(jstr \<times> json) list"

text \<open>\<open>typeof v === 'object'\<close>, \<open>Array.isArray(v)\<close>, truthiness and property access.\<close>

fun json_is_plain_object :: "json \<Rightarrow> bool" where
  "json_is_plain_object (JObj _) = True"
| "json_is_plain_object _ = False"

fun json_truthy :: "json \<Rightarrow> bool" where
  "json_truthy JNull = False"
| "json_truthy (JBool b) = b"
| "json_truthy (JNum n) = (n \<noteq> 0)"
| "json_truthy (JStr s) = (s \<noteq> [])"
| "json_truthy _ = True"

fun json_get :: "jstr \<Rightarrow> json \<Rightarrow> json option" where
  "json_get k (JObj ps) = map_of ps k"
| "json_get k _ = None"

section \<open>Numbers as text\<close>

definition is_digit :: "jchar \<Rightarrow> bool" where
  "is_digit c \<longleftrightarrow> 48 \<le> c \<and> c \<le> 57"

fun digits_val :: "jstr \<Rightarrow> nat \<Rightarrow> nat" where
  "digits_val [] acc = acc"
| "digits_val (c # cs) acc = digits_val cs (10 * acc + nat (c - 48))"

fun dec_digits :: "nat \<Rightarrow> jstr" where
  "dec_digits n = (if n < 10 then [48 + int n] else dec_digits (n div 10) @ [48 + int (n mod 10)])"

declare dec_digits.simps [simp del]

text \<open>The last \<open>d\<close> decimal digits of \<open>r\<close>.\<close>

fun pad_digits :: "nat \<Rightarrow> nat \<Rightarrow> jstr" where
  "pad_digits 0 r = []"
| "pad_digits (Suc d) r = pad_digits d (r div 10) @ [48 + int (r mod 10)]"

text \<open>The number of decimals of a terminating decimal.\<close>

fun count_factor :: "nat \<Rightarrow> nat \<Rightarrow> nat" where
  "count_factor p n = (if p < 2 \<or> n = 0 \<or> n mod p \<noteq> 0 then 0 else Suc (count_factor p (n div p)))"

declare count_factor.simps [simp del]

definition dec_scale :: "jsnum \<Rightarrow> nat" where
  "dec_scale x = (let q = nat (snd (quotient_of x)) in max (count_factor 2 q) (count_factor 5 q))"

definition scaled :: "jsnum \<Rightarrow> nat \<Rightarrow> nat" where
  "scaled x d = nat (fst (quotient_of (\<bar>x\<bar> * 10 ^ d)))"

fun strip_zeros :: "nat \<Rightarrow> nat \<Rightarrow> nat \<times> nat" where
  "strip_zeros m t = (if m \<noteq> 0 \<and> m mod 10 = 0 then strip_zeros (m div 10) (Suc t) else (m, t))"

declare strip_zeros.simps [simp del]

definition positional :: "jsnum \<Rightarrow> bool" where
  "positional x \<longleftrightarrow> x = 0 \<or> (1 / 10 ^ 6 \<le> \<bar>x\<bar> \<and> \<bar>x\<bar> < 10 ^ 21)"

definition exponent_form :: "nat \<Rightarrow> nat \<Rightarrow> jstr" where
  "exponent_form m d =
     (let (s, t) = strip_zeros m 0; ds = dec_digits s; e = int (length ds) + int t - int d - 1 in
      (case ds of
         [c] \<Rightarrow> [c]
       | c # cs \<Rightarrow> c # 46 # cs
       | [] \<Rightarrow> [])
      @ [101, if e < 0 then 45 else 43] @ dec_digits (nat \<bar>e\<bar>))"

definition Number_toString :: "jsnum \<Rightarrow> jstr" where
  "Number_toString x =
     (let d = dec_scale x; m = scaled x d in
      (if x < 0 then [45] else []) @
      (if positional x
       then dec_digits (m div 10 ^ d) @ (if d = 0 then [] else 46 # pad_digits d (m mod 10 ^ d))
       else exponent_form m d))"

section \<open>Parser\<close>

definition json_ws :: "jchar \<Rightarrow> bool" where
  "json_ws c \<longleftrightarrow> c = 9 \<or> c = 10 \<or> c = 13 \<or> c = 32"

definition skip :: "jstr \<Rightarrow> jstr" where
  "skip s = dropWhile json_ws s"

definition hex_val :: "jchar \<Rightarrow> int option" where
  "hex_val c =
     (if 48 \<le> c \<and> c \<le> 57 then Some (c - 48)
      else if 97 \<le> c \<and> c \<le> 102 then Some (c - 87)
      else if 65 \<le> c \<and> c \<le> 70 then Some (c - 55)
      else None)"

definition simple_escape :: "jchar \<Rightarrow> jchar option" where
  "simple_escape c =
     (if c = 34 \<or> c = 92 \<or> c = 47 then Some c
      else if c = 98 then Some 8
      else if c = 102 then Some 12
      else if c = 110 then Some 10
      else if c = 114 then Some 13
      else if c = 116 then Some 9
      else None)"

definition hex4 :: "jchar \<Rightarrow> jchar \<Rightarrow> jchar \<Rightarrow> jchar \<Rightarrow> jchar option" where
  "hex4 a b c d =
     (case (hex_val a, hex_val b, hex_val c, hex_val d) of
        (Some w, Some x, Some y, Some z) \<Rightarrow> Some (4096 * w + 256 * x + 16 * y + z)
      | _ \<Rightarrow> None)"

text \<open>The rest of a string after its opening quote: its units and what follows the closing quote.\<close>

fun parse_str :: "jstr \<Rightarrow> (jstr \<times> jstr) option" where
  "parse_str [] = None"
| "parse_str (c # cs) =
     (if c = 34 then Some ([], cs)
      else if c = 92 then
        (case cs of
           [] \<Rightarrow> None
         | e # r \<Rightarrow>
             (if e = 117 then
                (case r of
                   h1 # h2 # h3 # h4 # r' \<Rightarrow>
                     (case hex4 h1 h2 h3 h4 of
                        None \<Rightarrow> None
                      | Some u \<Rightarrow> map_option (\<lambda>(t, q). (u # t, q)) (parse_str r'))
                 | _ \<Rightarrow> None)
              else case simple_escape e of
                None \<Rightarrow> None
              | Some u \<Rightarrow> map_option (\<lambda>(t, q). (u # t, q)) (parse_str r)))
      else if c < 32 then None
      else map_option (\<lambda>(t, q). (c # t, q)) (parse_str cs))"

definition parse_int_part :: "jstr \<Rightarrow> (nat \<times> jstr) option" where
  "parse_int_part s =
     (case s of
        [] \<Rightarrow> None
      | c # cs \<Rightarrow>
          (if c = 48 then Some (0, cs)
           else if is_digit c then Some (digits_val (takeWhile is_digit s) 0, dropWhile is_digit s)
           else None))"

definition parse_fraction :: "jstr \<Rightarrow> (jsnum \<times> jstr) option" where
  "parse_fraction s =
     (case s of
        [] \<Rightarrow> Some (0, [])
      | c # cs \<Rightarrow>
          (if c = 46 then
             (let ds = takeWhile is_digit cs in
              if ds = [] then None
              else Some (of_nat (digits_val ds 0) / 10 ^ length ds, dropWhile is_digit cs))
           else Some (0, s)))"

definition parse_exponent :: "jstr \<Rightarrow> (int \<times> jstr) option" where
  "parse_exponent s =
     (case s of
        [] \<Rightarrow> Some (0, [])
      | c # cs \<Rightarrow>
          (if c = 101 \<or> c = 69 then
             (let (neg, r) = (case cs of
                 [] \<Rightarrow> (False, [])
               | g # gs \<Rightarrow> (if g = 45 then (True, gs) else if g = 43 then (False, gs) else (False, cs)));
                  ds = takeWhile is_digit r in
              if ds = [] then None
              else Some ((if neg then - int (digits_val ds 0) else int (digits_val ds 0)), dropWhile is_digit r))
           else Some (0, s)))"

definition scale10 :: "jsnum \<Rightarrow> int \<Rightarrow> jsnum" where
  "scale10 x e = (if 0 \<le> e then x * 10 ^ nat e else x / 10 ^ nat (- e))"

definition parse_number :: "jstr \<Rightarrow> (jsnum \<times> jstr) option" where
  "parse_number s =
     (let (neg, r) = (case s of [] \<Rightarrow> (False, []) | c # cs \<Rightarrow> (if c = 45 then (True, cs) else (False, s))) in
      (case parse_int_part r of
         None \<Rightarrow> None
       | Some (n, r1) \<Rightarrow>
           (case parse_fraction r1 of
              None \<Rightarrow> None
            | Some (f, r2) \<Rightarrow>
                (case parse_exponent r2 of
                   None \<Rightarrow> None
                 | Some (e, r3) \<Rightarrow>
                     (let v = scale10 (of_nat n + f) e in Some (if neg then - v else v, r3))))))"

text \<open>Members are collected in textual order; a repeated key keeps its place and its last value.\<close>

definition obj_of_members :: "(jstr \<times> json) list \<Rightarrow> (jstr \<times> json) list" where
  "obj_of_members ms = foldl (\<lambda>obj (k, v). AList.update k v obj) [] ms"

definition lit_true :: jstr where "lit_true = js ''true''"
definition lit_false :: jstr where "lit_false = js ''false''"
definition lit_null :: jstr where "lit_null = js ''null''"

fun parse_value :: "nat \<Rightarrow> jstr \<Rightarrow> (json \<times> jstr) option"
and parse_members :: "nat \<Rightarrow> jstr \<Rightarrow> ((jstr \<times> json) list \<times> jstr) option"
and parse_elements :: "nat \<Rightarrow> jstr \<Rightarrow> (json list \<times> jstr) option" where
  "parse_value 0 s = None"
| "parse_value (Suc n) s =
     (case skip s of
        [] \<Rightarrow> None
      | c # cs \<Rightarrow>
          (if c = 34 then map_option (\<lambda>(t, r). (JStr t, r)) (parse_str cs)
           else if c = 123 then
             (case skip cs of
                [] \<Rightarrow> None
              | d # ds \<Rightarrow>
                  (if d = 125 then Some (JObj [], ds)
                   else map_option (\<lambda>(ms, r). (JObj (obj_of_members ms), r)) (parse_members n cs)))
           else if c = 91 then
             (case skip cs of
                [] \<Rightarrow> None
              | d # ds \<Rightarrow>
                  (if d = 93 then Some (JArr [], ds)
                   else map_option (\<lambda>(xs, r). (JArr xs, r)) (parse_elements n cs)))
           else if startsWith (c # cs) lit_true then Some (JBool True, drop 4 (c # cs))
           else if startsWith (c # cs) lit_false then Some (JBool False, drop 5 (c # cs))
           else if startsWith (c # cs) lit_null then Some (JNull, drop 4 (c # cs))
           else map_option (\<lambda>(x, r). (JNum x, r)) (parse_number (c # cs))))"
| "parse_members 0 s = None"
| "parse_members (Suc n) s =
     (case skip s of
        [] \<Rightarrow> None
      | c # cs \<Rightarrow>
          (if c \<noteq> 34 then None
           else case parse_str cs of
             None \<Rightarrow> None
           | Some (k, r1) \<Rightarrow>
               (case skip r1 of
                  [] \<Rightarrow> None
                | d # r2 \<Rightarrow>
                    (if d \<noteq> 58 then None
                     else case parse_value n r2 of
                       None \<Rightarrow> None
                     | Some (v, r3) \<Rightarrow>
                         (case skip r3 of
                            [] \<Rightarrow> None
                          | e # r4 \<Rightarrow>
                              (if e = 44 then map_option (\<lambda>(ms, r). ((k, v) # ms, r)) (parse_members n r4)
                               else if e = 125 then Some ([(k, v)], r4)
                               else None))))))"
| "parse_elements 0 s = None"
| "parse_elements (Suc n) s =
     (case parse_value n s of
        None \<Rightarrow> None
      | Some (v, r3) \<Rightarrow>
          (case skip r3 of
             [] \<Rightarrow> None
           | e # r4 \<Rightarrow>
               (if e = 44 then map_option (\<lambda>(xs, r). (v # xs, r)) (parse_elements n r4)
                else if e = 93 then Some ([v], r4)
                else None)))"

definition JSON_parse :: "jstr \<Rightarrow> json option" where
  "JSON_parse s =
     (case parse_value (2 * length s + 2) s of
        None \<Rightarrow> None
      | Some (v, r) \<Rightarrow> (if skip r = [] then Some v else None))"

section \<open>Printer\<close>

definition hex_digit :: "int \<Rightarrow> jchar" where
  "hex_digit v = (if v < 10 then 48 + v else 87 + v)"

definition surrogate :: "jchar \<Rightarrow> bool" where
  "surrogate c \<longleftrightarrow> 55296 \<le> c \<and> c \<le> 57343"

definition unicode_escape :: "jchar \<Rightarrow> jstr" where
  "unicode_escape c = [92, 117, hex_digit (c div 4096 mod 16), hex_digit (c div 256 mod 16),
     hex_digit (c div 16 mod 16), hex_digit (c mod 16)]"

text \<open>One unit of a string; a lone surrogate (one that is not half of a pair) is escaped.\<close>

definition print_char :: "bool \<Rightarrow> jchar \<Rightarrow> jstr" where
  "print_char lone c =
     (if c = 34 then [92, 34]
      else if c = 92 then [92, 92]
      else if c = 8 then [92, 98]
      else if c = 9 then [92, 116]
      else if c = 10 then [92, 110]
      else if c = 12 then [92, 102]
      else if c = 13 then [92, 114]
      else if c < 32 \<or> lone then unicode_escape c
      else [c])"

fun print_chars :: "jstr \<Rightarrow> jstr" where
  "print_chars [] = []"
| "print_chars [c] = print_char (surrogate c) c"
| "print_chars (c # d # cs) =
     (if 55296 \<le> c \<and> c \<le> 56319 \<and> 56320 \<le> d \<and> d \<le> 57343
      then c # d # print_chars cs
      else print_char (surrogate c) c @ print_chars (d # cs))"

definition print_str :: "jstr \<Rightarrow> jstr" where
  "print_str s = 34 # print_chars s @ [34]"

text \<open>\<open>gap\<close> is the indentation of one level; an empty gap prints without line breaks.\<close>

definition line_break :: "jstr \<Rightarrow> jstr \<Rightarrow> jstr" where
  "line_break gap indent = (if gap = [] then [] else 10 # indent)"

fun print_json :: "jstr \<Rightarrow> jstr \<Rightarrow> json \<Rightarrow> jstr"
and print_elements :: "jstr \<Rightarrow> jstr \<Rightarrow> json list \<Rightarrow> jstr"
and print_members :: "jstr \<Rightarrow> jstr \<Rightarrow> (jstr \<times> json) list \<Rightarrow> jstr" where
  "print_json gap indent JNull = lit_null"
| "print_json gap indent (JBool b) = (if b then lit_true else lit_false)"
| "print_json gap indent (JNum x) = Number_toString x"
| "print_json gap indent (JStr s) = print_str s"
| "print_json gap indent (JArr xs) =
     (if xs = [] then [91, 93]
      else [91] @ print_elements gap (indent @ gap) xs @ line_break gap indent @ [93])"
| "print_json gap indent (JObj ps) =
     (if ps = [] then [123, 125]
      else [123] @ print_members gap (indent @ gap) ps @ line_break gap indent @ [125])"
| "print_elements gap indent [] = []"
| "print_elements gap indent (x # xs) =
     line_break gap indent @ print_json gap indent x @
     (if xs = [] then [] else 44 # print_elements gap indent xs)"
| "print_members gap indent [] = []"
| "print_members gap indent ((k, v) # ps) =
     line_break gap indent @ print_str k @ [58] @ (if gap = [] then [] else [32]) @ print_json gap indent v @
     (if ps = [] then [] else 44 # print_members gap indent ps)"

definition JSON_stringify :: "jstr \<Rightarrow> json \<Rightarrow> jstr" where
  "JSON_stringify gap v = print_json gap [] v"

section \<open>Fuel is enough\<close>

lemma skip_length: "length (skip s) \<le> length s"
  by (simp add: skip_def length_dropWhile_le)

lemma skip_ConsD: "skip s = c # cs \<Longrightarrow> length cs < length s"
  using skip_length [of s] by simp

lemma parse_str_length: "parse_str s = Some (t, r) \<Longrightarrow> length r < length s"
  by (induction s arbitrary: t r rule: parse_str.induct)
     (fastforce split: if_splits list.splits option.splits)+

lemma parse_int_part_length: "parse_int_part s = Some (n, r) \<Longrightarrow> length r < length s"
  by (auto simp: parse_int_part_def length_dropWhile_le less_Suc_eq_le split: list.splits if_splits)

lemma parse_fraction_length: "parse_fraction s = Some (f, r) \<Longrightarrow> length r \<le> length s"
  by (auto simp: parse_fraction_def Let_def length_dropWhile_le le_SucI split: list.splits if_splits)

lemma parse_exponent_length: "parse_exponent s = Some (e, r) \<Longrightarrow> length r \<le> length s"
  by (auto simp: parse_exponent_def Let_def length_dropWhile_le le_SucI split: list.splits if_splits prod.splits)

lemma parse_number_length: "parse_number s = Some (x, r) \<Longrightarrow> length r < length s"
  by (fastforce simp: parse_number_def Let_def dest: parse_int_part_length parse_fraction_length
      parse_exponent_length split: list.splits if_splits option.splits prod.splits)

lemma parse_length:
  "parse_value n s = Some (v, r) \<Longrightarrow> length r < length s"
  "parse_members n s = Some (ms, r) \<Longrightarrow> length r < length s"
  "parse_elements n s = Some (xs, r) \<Longrightarrow> length r < length s"
proof (induction n s and n s and n s arbitrary: v r and ms r and xs r
    rule: parse_value_parse_members_parse_elements.induct)
  case (2 n s)
  obtain c cs where sk: "skip s = c # cs" using 2(3) by (cases "skip s") auto
  note l = skip_ConsD [OF sk] and sk' = skip_length [of s]
  show ?case using 2(3) sk l sk' 2(1)[OF sk] 2(2)[OF sk]
    by (fastforce split: if_splits list.splits dest: parse_str_length parse_number_length skip_ConsD)
next
  case (4 n s)
  then show ?case
    by (fastforce split: if_splits list.splits option.splits dest: parse_str_length skip_ConsD)
next
  case (6 n s)
  then show ?case
    by (fastforce split: if_splits list.splits option.splits dest: skip_ConsD)
qed auto

lemma parse_more_fuel:
  "2 * length s < n \<Longrightarrow> parse_value (Suc n) s = parse_value n s"
  "2 * length s + 1 < n \<Longrightarrow> parse_members (Suc n) s = parse_members n s"
  "2 * length s + 1 < n \<Longrightarrow> parse_elements (Suc n) s = parse_elements n s"
proof (induction n s and n s and n s rule: parse_value_parse_members_parse_elements.induct)
  case (2 n s)
  show ?case
  proof (cases "skip s")
    case Nil
    then show ?thesis by simp
  next
    case (Cons c cs)
    then have l: "2 * length cs + 1 < n" using 2(3) skip_ConsD [OF Cons] by simp
    have M: "parse_members (Suc n) cs = parse_members n cs" if "c = 123" "skip cs = d # ds" "d \<noteq> 125" for d ds
      using 2(1) [OF Cons _ that] l that(1) by (simp del: parse_members.simps)
    have E: "parse_elements (Suc n) cs = parse_elements n cs" if "c = 91" "skip cs = d # ds" "d \<noteq> 93" for d ds
      using 2(2) [OF Cons _ _ that] l that(1) by (simp del: parse_elements.simps)
    show ?thesis
      by (subst (1 2) parse_value.simps)
         (auto simp: Cons M E simp del: parse_members.simps parse_elements.simps split: list.split)
  qed
next
  case (4 n s)
  have V: "parse_value (Suc n) r2 = parse_value n r2"
    if "skip s = c # cs" "\<not> c \<noteq> 34" "parse_str cs = Some (k, r1)" "skip r1 = d # r2" "\<not> d \<noteq> 58" for c cs k r1 d r2
    using 4(1) [OF that(1,2,3) refl that(4,5)] 4(3) skip_ConsD [OF that(1)] parse_str_length [OF that(3)] skip_ConsD [OF that(4)]
    by simp
  have M: "parse_members (Suc n) r4 = parse_members n r4"
    if "skip s = c # cs" "\<not> c \<noteq> 34" "parse_str cs = Some (k, r1)" "skip r1 = d # r2" "\<not> d \<noteq> 58"
       "parse_value n r2 = Some (v, r3)" "skip r3 = e # r4" "e = 44" for c cs k r1 d r2 v r3 e r4
    using 4(2) [OF that(1,2,3) refl that(4,5,6) refl that(7,8)] 4(3) skip_ConsD [OF that(1)]
      parse_str_length [OF that(3)] skip_ConsD [OF that(4)] parse_length(1) [OF that(6)] skip_ConsD [OF that(7)]
    by simp
  show ?case
    by (subst (1 2) parse_members.simps)
       (auto split: list.splits option.splits simp: V M simp del: parse_value.simps parse_members.simps)
next
  case (6 n s)
  have V: "parse_value (Suc n) s = parse_value n s" using 6(1,3) by simp
  have E: "parse_elements (Suc n) r4 = parse_elements n r4"
    if "parse_value n s = Some (v, r3)" "skip r3 = e # r4" "e = 44" for v r3 e r4
    using 6(2) [OF that(1) refl that(2,3)] 6(3) parse_length(1) [OF that(1)] skip_ConsD [OF that(2)] by simp
  show ?case
    by (subst (1 2) parse_elements.simps)
       (auto split: list.splits option.splits simp: V E simp del: parse_value.simps parse_elements.simps)
qed auto

lemma parse_value_fuel: "2 * length s < n \<Longrightarrow> n \<le> k \<Longrightarrow> parse_value k s = parse_value n s"
proof (induction "k - n" arbitrary: k)
  case (Suc d)
  then obtain k' where "k = Suc k'" "n \<le> k'" "d = k' - n" by (cases k) auto
  then show ?case using Suc parse_more_fuel(1) [of s k'] by simp
qed simp

section \<open>Numbers survive printing and parsing\<close>

lemma digits_val_append: "digits_val (xs @ ys) a = digits_val ys (digits_val xs a)"
  by (induction xs arbitrary: a) auto

lemma dec_digits_digit: "c \<in> set (dec_digits n) \<Longrightarrow> is_digit c"
proof (induction n arbitrary: c rule: dec_digits.induct)
  case (1 n)
  then show ?case by (subst (asm) (2) dec_digits.simps) (auto simp: is_digit_def split: if_splits)
qed

lemma dec_digits_val: "digits_val (dec_digits n) 0 = n"
proof (induction n rule: dec_digits.induct)
  case (1 n)
  then show ?case by (subst dec_digits.simps) (auto simp: digits_val_append)
qed

lemma dec_digits_nonempty [simp]: "dec_digits n \<noteq> []"
  by (subst dec_digits.simps) simp

lemma dec_digits_0 [simp]: "dec_digits 0 = [48]"
  by (subst dec_digits.simps) simp

lemma dec_digits_hd: "0 < n \<Longrightarrow> hd (dec_digits n) \<noteq> 48"
proof (induction n rule: dec_digits.induct)
  case (1 n)
  then show ?case by (subst dec_digits.simps) auto
qed

lemma pad_digits_length [simp]: "length (pad_digits d r) = d"
  by (induction d arbitrary: r) auto

lemma pad_digits_digit: "c \<in> set (pad_digits d r) \<Longrightarrow> is_digit c"
  by (induction d arbitrary: r) (auto simp: is_digit_def)

lemma pad_digits_val: "digits_val (pad_digits d r) 0 = r mod 10 ^ d"
proof (induction d arbitrary: r)
  case (Suc d)
  have "10 * (r div 10 mod 10 ^ d) + r mod 10 = r mod (10 * 10 ^ d)"
    by (simp add: mod_mult2_eq)
  with Suc show ?case by (simp add: digits_val_append)
qed simp

text \<open>What may follow a printed value inside a larger text.\<close>

definition delim :: "jstr \<Rightarrow> bool" where
  "delim r \<longleftrightarrow> (case r of [] \<Rightarrow> True | c # _ \<Rightarrow> json_ws c \<or> c = 44 \<or> c = 93 \<or> c = 125)"

lemma span_digits:
  assumes "\<forall>c\<in>set ds. is_digit c" "case r of [] \<Rightarrow> True | c # _ \<Rightarrow> \<not> is_digit c"
  shows "takeWhile is_digit (ds @ r) = ds" "dropWhile is_digit (ds @ r) = r"
  using assms by (auto simp: takeWhile_append dropWhile_append split: list.splits)

lemma delim_no_digit: "delim r \<Longrightarrow> case r of [] \<Rightarrow> True | c # _ \<Rightarrow> \<not> is_digit c"
  by (auto simp: delim_def json_ws_def is_digit_def split: list.splits)

lemma parse_int_part_dec:
  assumes "case r of [] \<Rightarrow> True | c # _ \<Rightarrow> \<not> is_digit c"
  shows "parse_int_part (dec_digits n @ r) = Some (n, r)"
proof (cases "n = 0")
  case True
  then show ?thesis by (simp add: parse_int_part_def)
next
  case False
  then obtain c cs where c: "dec_digits n = c # cs" "c \<noteq> 48"
    using dec_digits_hd [of n] dec_digits_nonempty [of n] by (cases "dec_digits n") auto
  then have d: "is_digit c" using dec_digits_digit [of c n] by simp
  note sp = span_digits [of "dec_digits n" r, OF _ assms] 
  have "takeWhile is_digit (dec_digits n @ r) = dec_digits n" "dropWhile is_digit (dec_digits n @ r) = r"
    using sp dec_digits_digit by blast+
  with c d dec_digits_val [of n] show ?thesis by (simp add: parse_int_part_def)
qed

lemma parse_fraction_pad:
  assumes "0 < d" "delim r"
  shows "parse_fraction (46 # pad_digits d m @ r) = Some (of_nat (m mod 10 ^ d) / 10 ^ d, r)"
proof -
  have "takeWhile is_digit (pad_digits d m @ r) = pad_digits d m" "dropWhile is_digit (pad_digits d m @ r) = r"
    using span_digits [of "pad_digits d m" r, OF _ delim_no_digit [OF assms(2)]] pad_digits_digit by blast+
  moreover have "pad_digits d m \<noteq> []" using assms(1) pad_digits_length [of d m] by (metis length_0_conv less_irrefl)
  ultimately show ?thesis by (simp add: parse_fraction_def pad_digits_val)
qed

lemma parse_fraction_delim: "delim r \<Longrightarrow> parse_fraction r = Some (0, r)"
  by (auto simp: parse_fraction_def delim_def json_ws_def split: list.splits)

lemma parse_exponent_delim: "delim r \<Longrightarrow> parse_exponent r = Some (0, r)"
  by (auto simp: parse_exponent_def delim_def json_ws_def split: list.splits)

text \<open>The numbers that \<open>Number_toString\<close> prints exactly in positional notation.\<close>

definition plain_number :: "jsnum \<Rightarrow> bool" where
  "plain_number x \<longleftrightarrow> positional x \<and> snd (quotient_of (x * 10 ^ dec_scale x)) = 1"

lemma quotient_of_one: "snd (quotient_of y) = 1 \<Longrightarrow> y = of_int (fst (quotient_of y))"
  using quotient_of_div [of y "fst (quotient_of y)" "snd (quotient_of y)"] prod.collapse [of "quotient_of y"]
  by simp

lemma scaled_value:
  assumes "snd (quotient_of (x * 10 ^ d)) = 1"
  shows "rat_of_nat (scaled x d) = \<bar>x\<bar> * 10 ^ d"
proof -
  obtain k where k: "x * 10 ^ d = of_int k" using quotient_of_one [OF assms] by blast
  then have *: "\<bar>x\<bar> * 10 ^ d = of_int \<bar>k\<bar>"
    using abs_mult [of x "10 ^ d"] by (simp add: power_abs)
  then have "scaled x d = nat \<bar>k\<bar>"
    using quotient_of_int [of "\<bar>k\<bar>"] by (simp only: scaled_def Rat.of_int_def fst_conv)
  with * show ?thesis by simp
qed

lemma split_value: "rat_of_nat (m div 10 ^ d) + rat_of_nat (m mod 10 ^ d) / 10 ^ d = rat_of_nat m / 10 ^ d"
proof -
  have "rat_of_nat m = rat_of_nat (m div 10 ^ d * 10 ^ d + m mod 10 ^ d)"
    by (simp only: div_mult_mod_eq)
  then have "rat_of_nat m = rat_of_nat (m div 10 ^ d) * 10 ^ d + rat_of_nat (m mod 10 ^ d)"
    by (simp only: of_nat_add of_nat_mult of_nat_power of_nat_numeral)
  then show ?thesis by (simp only: add_divide_distrib) simp
qed

lemma parse_number_toString:
  assumes "plain_number x" "delim r"
  shows "parse_number (Number_toString x @ r) = Some (x, r)"
proof -
  define d where "d = dec_scale x"
  define m where "m = scaled x d"
  have mv: "rat_of_nat m = \<bar>x\<bar> * 10 ^ d" and pos: "positional x"
    using assms(1) scaled_value [of x d] by (simp_all add: plain_number_def m_def d_def)
  define body where "body = dec_digits (m div 10 ^ d) @ (if d = 0 then [] else 46 # pad_digits d (m mod 10 ^ d))"
  define r1 where "r1 = (if d = 0 then [] else 46 # pad_digits d (m mod 10 ^ d)) @ r"
  have r1: "case r1 of [] \<Rightarrow> True | c # _ \<Rightarrow> \<not> is_digit c"
    using delim_no_digit [OF assms(2)] by (auto simp: r1_def is_digit_def split: list.splits)
  have f: "parse_fraction r1 = Some (of_nat (m mod 10 ^ d) / 10 ^ d, r)"
    using parse_fraction_pad [of d r "m mod 10 ^ d"] parse_fraction_delim assms(2) by (auto simp: r1_def)
  have i: "parse_int_part (body @ r) = Some (m div 10 ^ d, r1)"
    using parse_int_part_dec [OF r1] by (simp add: body_def r1_def)
  have s: "Number_toString x = (if x < 0 then [45] else []) @ body"
    using pos by (simp add: Number_toString_def body_def m_def d_def Let_def)
  obtain c cs where c: "body @ r = c # cs" "c \<noteq> 45"
  proof (cases "dec_digits (m div 10 ^ d)")
    case (Cons a as)
    then have "is_digit a" using dec_digits_digit [of a "m div 10 ^ d"] by simp
    with Cons that show ?thesis by (auto simp: body_def is_digit_def)
  qed simp
  have v: "scale10 (rat_of_nat (m div 10 ^ d) + of_nat (m mod 10 ^ d) / 10 ^ d) 0 = \<bar>x\<bar>"
    unfolding split_value mv by (simp add: scale10_def)
  note e = parse_exponent_delim [OF assms(2)]
  show ?thesis
  proof (cases "x < 0")
    case True
    then have "parse_number (Number_toString x @ r) = Some (- \<bar>x\<bar>, r)"
      by (simp add: parse_number_def s i f e v Let_def)
    with True show ?thesis by simp
  next
    case False
    then have "parse_number (Number_toString x @ r) = Some (\<bar>x\<bar>, r)"
      using c i f e v by (simp add: parse_number_def s Let_def)
    with False show ?thesis by simp
  qed
qed

lemma Number_toString_first:
  assumes "plain_number x"
  obtains c cs where "Number_toString x = c # cs" "c = 45 \<or> is_digit c"
proof -
  let ?d = "dec_scale x" 
  obtain a as where "dec_digits (scaled x ?d div 10 ^ ?d) = a # as"
    by (cases "dec_digits (scaled x ?d div 10 ^ ?d)") auto
  moreover then have "is_digit a" using dec_digits_digit [of a "scaled x ?d div 10 ^ ?d"] by simp
  ultimately show ?thesis using assms that
    by (cases "x < 0") (auto simp: Number_toString_def plain_number_def Let_def)
qed

section \<open>Strings survive printing and parsing\<close>

definition code_unit :: "jchar \<Rightarrow> bool" where
  "code_unit c \<longleftrightarrow> 0 \<le> c \<and> c < 65536"

lemma hex_val_digit: "0 \<le> v \<Longrightarrow> v < 16 \<Longrightarrow> hex_val (hex_digit v) = Some v"
  by (auto simp: hex_val_def hex_digit_def)

lemma hex_sum: "(x::int) * 16 + a = c \<Longrightarrow> y * 16 + b = x \<Longrightarrow> z * 16 + d = y \<Longrightarrow> 4096 * z + 256 * d + 16 * b + a = c"
  by simp

lemma hex4_escape:
  assumes "code_unit c"
  shows "hex4 (hex_digit (c div 4096 mod 16)) (hex_digit (c div 256 mod 16))
     (hex_digit (c div 16 mod 16)) (hex_digit (c mod 16)) = Some c"
proof -
  have "4096 * (c div 4096 mod 16) + 256 * (c div 256 mod 16) + 16 * (c div 16 mod 16) + c mod 16 = c"
  proof -
    have e: "c div 256 = c div 16 div 16" "c div 4096 = c div 16 div 16 div 16"
      using zdiv_zmult2_eq [of 16 c 16] zdiv_zmult2_eq [of 16 c 256] zdiv_zmult2_eq [of 16 "c div 16" 16]
      by simp_all
    have "0 \<le> c div 4096" "c div 4096 < 16"
      using assms zdiv_mono1 [of 0 c 4096] zdiv_mono1 [of c 65535 4096] by (simp_all add: code_unit_def)
    then have "c div 16 div 16 div 16 mod 16 = c div 16 div 16 div 16"
      by (simp only: e [symmetric] mod_pos_pos_trivial)
    then show ?thesis unfolding e
      using hex_sum [OF div_mult_mod_eq div_mult_mod_eq div_mult_mod_eq] by (simp only:)
  qed
  moreover have "hex_val (hex_digit (k mod 16)) = Some (k mod 16)" for k by (simp add: hex_val_digit)
  ultimately show ?thesis by (simp only: hex4_def prod.case option.case)
qed

lemma parse_print_char:
  assumes "code_unit c"
  shows "parse_str (print_char lone c @ s) = map_option (\<lambda>(t, q). (c # t, q)) (parse_str s)"
  using assms hex4_escape [of c] by (auto simp: print_char_def unicode_escape_def simple_escape_def)

lemma parse_print_chars:
  "\<forall>c\<in>set s. code_unit c \<Longrightarrow> parse_str (print_chars s @ 34 # r) = Some (s, r)"
proof (induction s rule: print_chars.induct)
  case (3 c d cs)
  then show ?case
  proof (cases "55296 \<le> c \<and> c \<le> 56319 \<and> 56320 \<le> d \<and> d \<le> 57343")
    case True
    then show ?thesis using 3 by simp
  next
    case False
    then have "print_chars (c # d # cs) = print_char (surrogate c) c @ print_chars (d # cs)" by auto
    then show ?thesis using 3(2) [OF False] 3(3) parse_print_char [of c "surrogate c"] by simp
  qed
qed (simp_all add: parse_print_char)


section \<open>Values survive printing and parsing\<close>

fun serialisable :: "json \<Rightarrow> bool" where
  "serialisable (JNum x) = plain_number x"
| "serialisable (JStr s) = (\<forall>c\<in>set s. code_unit c)"
| "serialisable (JArr xs) = (\<forall>x\<in>set xs. serialisable x)"
| "serialisable (JObj ps) =
     (distinct (map fst ps) \<and> (\<forall>p\<in>set ps. (\<forall>c\<in>set (fst p). code_unit c) \<and> serialisable (snd p)))"
| "serialisable _ = True"

definition blank :: "jstr \<Rightarrow> bool" where
  "blank s \<longleftrightarrow> (\<forall>c\<in>set s. json_ws c)"

lemma skip_blank: "blank w \<Longrightarrow> skip (w @ s) = skip s"
  by (induction w) (auto simp: skip_def blank_def)

lemma skip_keep: "\<not> json_ws c \<Longrightarrow> skip (c # cs) = c # cs"
  by (simp add: skip_def)

lemma blank_simps [simp]: "blank []" "blank (a @ b) \<longleftrightarrow> blank a \<and> blank b"
  by (auto simp: blank_def)

lemma blank_line_break: "blank indent \<Longrightarrow> blank (line_break gap indent)"
  by (simp add: line_break_def blank_def json_ws_def)

lemma parse_value_blank: "blank w \<Longrightarrow> parse_value n (w @ s) = parse_value n s"
  by (cases n) (simp_all add: skip_blank)

lemma parse_members_blank: "blank w \<Longrightarrow> parse_members n (w @ s) = parse_members n s"
  by (cases n) (simp_all add: skip_blank)

lemma parse_elements_blank: "blank w \<Longrightarrow> parse_elements n (w @ s) = parse_elements n s"
  by (cases n) (simp_all add: parse_value_blank)

lemma update_new_key: "k \<notin> fst ` set al \<Longrightarrow> AList.update k v al = al @ [(k, v)]"
  by (induction al) auto

lemma obj_of_members_snoc: "obj_of_members (ms @ [(k, v)]) = AList.update k v (obj_of_members ms)"
  by (simp add: obj_of_members_def)

lemma obj_of_members_distinct: "distinct (map fst ms) \<Longrightarrow> obj_of_members ms = ms"
proof (induction ms rule: rev_induct)
  case (snoc p ms)
  obtain k v where p: "p = (k, v)" by (cases p)
  have "k \<notin> fst ` set ms" using snoc.prems by (simp add: p)
  then show ?case using snoc by (simp add: p obj_of_members_snoc update_new_key)
qed (simp add: obj_of_members_def)

text \<open>From here on the parser unfolds on request only.\<close>

declare parse_value.simps [simp del] parse_members.simps [simp del] parse_elements.simps [simp del]

lemmas parse_Suc = parse_value.simps(2) parse_members.simps(2) parse_elements.simps(2)


lemma no_ws [simp]:
  "\<not> json_ws 34" "\<not> json_ws 44" "\<not> json_ws 58" "\<not> json_ws 91" "\<not> json_ws 93" "\<not> json_ws 123" "\<not> json_ws 125"
  by (simp_all add: json_ws_def)

lemma json_lits: "lit_true = [116, 114, 117, 101]" "lit_false = [102, 97, 108, 115, 101]" "lit_null = [110, 117, 108, 108]"
  by (simp_all add: lit_true_def lit_false_def lit_null_def js_def)

lemma parse_print_num:
  assumes "plain_number x" "delim r"
  shows "parse_value (Suc n) (Number_toString x @ r) = Some (JNum x, r)"
proof -
  obtain c cs where c: "Number_toString x = c # cs" "c = 45 \<or> is_digit c"
    using Number_toString_first [OF assms(1)] .
  then have "\<not> json_ws c" "c \<noteq> 34" "c \<noteq> 123" "c \<noteq> 91" "c \<noteq> 116" "c \<noteq> 102" "c \<noteq> 110"
    by (auto simp: json_ws_def is_digit_def)
  moreover have "parse_number (c # cs @ r) = Some (x, r)"
    using parse_number_toString [OF assms] c by simp
  ultimately show ?thesis using c by (simp add: parse_Suc skip_keep json_lits startsWith_def)
qed

lemma print_json_first:
  assumes "serialisable v"
  obtains c cs where "print_json gap indent v = c # cs" "\<not> json_ws c" "c \<noteq> 93"
proof (cases v)
  case (JNum x)
  then obtain c cs where c: "Number_toString x = c # cs" "c = 45 \<or> is_digit c"
    using Number_toString_first [of x] assms by auto
  then have "\<not> json_ws c" "c \<noteq> 93" by (auto simp: json_ws_def is_digit_def)
  with JNum c that show ?thesis by simp
next
  case (JBool b)
  with that show ?thesis by (cases b) (simp_all add: json_lits json_ws_def)
next
  case (JArr xs)
  with that show ?thesis by (cases "xs = []") simp_all
next
  case (JObj ps)
  with that show ?thesis by (cases "ps = []") simp_all
qed (use that in \<open>simp_all add: json_lits print_str_def json_ws_def\<close>)

lemma print_json_pos: "serialisable v \<Longrightarrow> 0 < length (print_json gap indent v)"
  by (rule print_json_first [of v gap indent]) simp_all

lemma delim_simps [simp]: "delim []" "delim (44 # r)" "delim (93 # r)" "delim (125 # r)"
  by (simp_all add: delim_def)

lemma delim_line_break:
  "blank indent \<Longrightarrow> delim r \<Longrightarrow> delim (line_break gap indent @ r)"
  by (auto simp: line_break_def delim_def json_ws_def)

text \<open>One step of the parser on each printed construct.\<close>

lemma parse_array_step:
  "parse_elements k s = Some (xs, r) \<Longrightarrow> skip s = c # ds \<Longrightarrow> c \<noteq> 93 \<Longrightarrow>
   parse_value (Suc k) (91 # s) = Some (JArr xs, r)"
  by (simp add: parse_Suc skip_keep)

lemma parse_object_step:
  "parse_members k s = Some (ps, r) \<Longrightarrow> skip s = 34 # ds \<Longrightarrow> distinct (map fst ps) \<Longrightarrow>
   parse_value (Suc k) (123 # s) = Some (JObj ps, r)"
  by (simp add: parse_Suc skip_keep obj_of_members_distinct)

lemma parse_element_last:
  "parse_value k s = Some (x, w @ 93 # r) \<Longrightarrow> blank w \<Longrightarrow> parse_elements (Suc k) s = Some ([x], r)"
  by (simp add: parse_Suc skip_blank skip_keep)

lemma parse_element_next:
  "parse_value k s = Some (x, 44 # t) \<Longrightarrow> parse_elements k t = Some (xs, r) \<Longrightarrow>
   parse_elements (Suc k) s = Some (x # xs, r)"
  by (simp add: parse_Suc skip_keep)

lemma skip_print_str: "blank w \<Longrightarrow> skip (w @ print_str key @ u) = 34 # print_chars key @ 34 # u"
  by (simp add: skip_blank print_str_def skip_keep)

lemmas skip_print_key = skip_print_str [of "[]", simplified]

lemma parse_member_last:
  "\<forall>c\<in>set key. code_unit c \<Longrightarrow> blank w0 \<Longrightarrow> blank sp \<Longrightarrow> parse_value k s = Some (v, w @ 125 # r) \<Longrightarrow> blank w \<Longrightarrow>
   parse_members (Suc k) (w0 @ print_str key @ 58 # sp @ s) = Some ([(key, v)], r)"
  by (simp add: parse_Suc skip_blank skip_print_key parse_print_chars parse_value_blank skip_keep)

lemma parse_member_next:
  "\<forall>c\<in>set key. code_unit c \<Longrightarrow> blank w0 \<Longrightarrow> blank sp \<Longrightarrow> parse_value k s = Some (v, 44 # t) \<Longrightarrow>
   parse_members k t = Some (ps, r) \<Longrightarrow>
   parse_members (Suc k) (w0 @ print_str key @ 58 # sp @ s) = Some ((key, v) # ps, r)"
  by (simp add: parse_Suc skip_blank skip_print_key parse_print_chars parse_value_blank skip_keep)

lemma parse_print_atoms:
  "delim r \<Longrightarrow> parse_value (Suc k) (lit_null @ r) = Some (JNull, r)"
  "delim r \<Longrightarrow> parse_value (Suc k) (lit_true @ r) = Some (JBool True, r)"
  "delim r \<Longrightarrow> parse_value (Suc k) (lit_false @ r) = Some (JBool False, r)"
  "\<forall>c\<in>set s. code_unit c \<Longrightarrow> parse_value (Suc k) (print_str s @ r) = Some (JStr s, r)"
  "parse_value (Suc k) (91 # 93 # r) = Some (JArr [], r)"
  "parse_value (Suc k) (123 # 125 # r) = Some (JObj [], r)"
  by (simp_all add: parse_Suc json_lits skip_keep json_ws_def startsWith_def print_str_def parse_print_chars)

lemma delim_before: "w = [] \<or> delim w \<Longrightarrow> delim (w @ 93 # r)" "w = [] \<or> delim w \<Longrightarrow> delim (w @ 125 # r)"
  by (auto simp: delim_def split: list.splits)

lemma line_break_or: "line_break gap indent = [] \<or> delim (line_break gap indent)"
  by (simp add: line_break_def delim_def json_ws_def)

lemma parse_print:
  "serialisable v \<Longrightarrow> blank gap \<Longrightarrow> blank indent \<Longrightarrow> delim r \<Longrightarrow>
     2 * length (print_json gap indent v @ r) < n \<Longrightarrow>
     parse_value n (print_json gap indent v @ r) = Some (v, r)"
  "xs \<noteq> [] \<Longrightarrow> \<forall>x\<in>set xs. serialisable x \<Longrightarrow> blank gap \<Longrightarrow> blank indent \<Longrightarrow> blank w \<Longrightarrow> (w = [] \<or> delim w) \<Longrightarrow>
     2 * length (print_elements gap indent xs @ w @ 93 # r) + 1 < n \<Longrightarrow>
     parse_elements n (print_elements gap indent xs @ w @ 93 # r) = Some (xs, r)"
  "ps \<noteq> [] \<Longrightarrow> \<forall>p\<in>set ps. (\<forall>c\<in>set (fst p). code_unit c) \<and> serialisable (snd p) \<Longrightarrow> blank gap \<Longrightarrow> blank indent \<Longrightarrow> blank w \<Longrightarrow> (w = [] \<or> delim w) \<Longrightarrow>
     2 * length (print_members gap indent ps @ w @ 125 # r) + 1 < n \<Longrightarrow>
     parse_members n (print_members gap indent ps @ w @ 125 # r) = Some (ps, r)"
proof (induction gap indent v and gap indent xs and gap indent ps
    arbitrary: n r and n w r and n w r rule: print_json_print_elements_print_members.induct)
  case (5 gap indent xs)
  obtain k where n: "n = Suc k" using 5(6) by (cases n) simp_all
  show ?case
  proof (cases xs)
    case (Cons y ys)
    let ?w = "line_break gap indent"
    let ?s = "print_elements gap (indent @ gap) xs @ ?w @ 93 # r"
    have ne: "xs \<noteq> []" and sy: "serialisable y" using 5(2) Cons by simp_all
    have l: "2 * length ?s + 1 < k" using 5(6) ne n by simp
    have bi: "blank (indent @ gap)" using 5(3,4) by simp
    have ser: "\<forall>x\<in>set xs. serialisable x" using 5(2) by simp
    have "parse_elements k ?s = Some (xs, r)"
      by (rule 5(1) [OF ne ne ser 5(3) bi blank_line_break [OF 5(4)] line_break_or l])
    moreover obtain c cs where c: "print_json gap (indent @ gap) y = c # cs" "\<not> json_ws c" "c \<noteq> 93"
      using print_json_first [OF sy] by blast
    moreover have "\<exists>ds. skip ?s = c # ds"
      using c blank_line_break [of "indent @ gap" gap] 5(3,4) by (simp add: Cons skip_blank skip_keep)
    ultimately have "parse_value (Suc k) (91 # ?s) = Some (JArr xs, r)"
      using parse_array_step by blast
    then show ?thesis using ne by (simp add: n)
  qed (simp add: n parse_print_atoms)
next
  case (6 gap indent ps)
  obtain k where n: "n = Suc k" using 6(6) by (cases n) simp_all
  show ?case
  proof (cases ps)
    case (Cons y ys)
    let ?w = "line_break gap indent"
    let ?s = "print_members gap (indent @ gap) ps @ ?w @ 125 # r"
    have ne: "ps \<noteq> []" and d: "distinct (map fst ps)" using 6(2) Cons by simp_all
    have l: "2 * length ?s + 1 < k" using 6(6) ne n by simp
    have bi: "blank (indent @ gap)" using 6(3,4) by simp
    have ser: "\<forall>p\<in>set ps. (\<forall>c\<in>set (fst p). code_unit c) \<and> serialisable (snd p)" using 6(2) by simp
    have "parse_members k ?s = Some (ps, r)"
      by (rule 6(1) [OF ne ne ser 6(3) bi blank_line_break [OF 6(4)] line_break_or l])
    moreover have "\<exists>ds. skip ?s = 34 # ds"
      using blank_line_break [of "indent @ gap" gap] 6(3,4) by (cases y) (simp add: Cons skip_print_str)
    ultimately have "parse_value (Suc k) (123 # ?s) = Some (JObj ps, r)"
      using parse_object_step d by blast
    then show ?thesis using ne by (simp add: n)
  qed (simp add: n parse_print_atoms)
next
  case (8 gap indent x xs)
  obtain k where n: "n = Suc k" using 8(9) by (cases n) simp_all
  have b: "blank (line_break gap indent)" using 8(6) by (rule blank_line_break)
  show ?case
  proof (cases "xs = []")
    case True
    have "parse_value k (print_json gap indent x @ w @ 93 # r) = Some (x, w @ 93 # r)"
      by (rule 8(1)) (use 8(4-6,9) True n delim_before [OF 8(8)] in simp_all)
    then show ?thesis using parse_element_last [OF _ 8(7)] parse_value_blank [OF b] True by (simp add: n)
  next
    case False
    let ?t = "print_elements gap indent xs @ w @ 93 # r"
    have "parse_value k (print_json gap indent x @ 44 # ?t) = Some (x, 44 # ?t)"
      by (rule 8(1)) (use 8(4-6,9) False n in simp_all)
    moreover have "parse_elements k ?t = Some (xs, r)"
      by (rule 8(2)) (use 8(4-9) False n in simp_all)
    ultimately show ?thesis using parse_element_next parse_value_blank [OF b] False by (simp add: n)
  qed
next
  case (10 gap indent key v ps)
  obtain k where n: "n = Suc k" using 10(9) by (cases n) simp_all
  have b: "blank (line_break gap indent)" using 10(6) by (rule blank_line_break)
  define sp where "sp = (if gap = [] then [] else [32::int])"
  have sp: "blank sp" by (simp add: sp_def blank_def json_ws_def)
  have u: "\<forall>c\<in>set key. code_unit c" using 10(4) by simp
  show ?case
  proof (cases "ps = []")
    case True
    have "parse_value k (print_json gap indent v @ w @ 125 # r) = Some (v, w @ 125 # r)"
      by (rule 10(1)) (use 10(4-6,9) True n delim_before [OF 10(8)] in simp_all)
    then show ?thesis using parse_member_last [OF u b sp _ 10(7)] True by (simp add: n sp_def [symmetric])
  next
    case False
    let ?t = "print_members gap indent ps @ w @ 125 # r"
    have "parse_value k (print_json gap indent v @ 44 # ?t) = Some (v, 44 # ?t)"
      by (rule 10(1)) (use 10(4-6,9) False n in simp_all)
    moreover have "parse_members k ?t = Some (ps, r)"
      by (rule 10(2)) (use 10(4-9) False n in simp_all)
    ultimately show ?thesis using parse_member_next [OF u b sp] False by (simp add: n sp_def [symmetric])
  qed
next
  case (1 gap indent)
  obtain k where n: "n = Suc k" using 1(5) by (cases n) simp_all
  then show ?case using 1(1-5) by (simp add: parse_print_atoms)
next
  case (2 gap indent b)
  obtain k where n: "n = Suc k" using 2(5) by (cases n) simp_all
  then show ?case using 2(1-5) by (simp add: parse_print_atoms)
next
  case (3 gap indent x)
  obtain k where n: "n = Suc k" using 3(5) by (cases n) simp_all
  then show ?case using 3(1-5) by (simp add: parse_print_num)
next
  case (4 gap indent s)
  obtain k where n: "n = Suc k" using 4(5) by (cases n) simp_all
  then show ?case using 4(1-5) by (simp add: parse_print_atoms)
qed simp_all

lemma JSON_parse_stringify:
  "serialisable v \<Longrightarrow> blank gap \<Longrightarrow> JSON_parse (JSON_stringify gap v) = Some v"
  using parse_print(1) [of v gap "[]" "[]"] by (simp add: JSON_parse_def JSON_stringify_def skip_def)

definition code_units :: "jstr \<Rightarrow> bool" where
  "code_units s \<longleftrightarrow> (\<forall>c\<in>set s. code_unit c)"

lemma code_units_js [simp]: "code_units (js s)"
proof -
  have "code_unit (of_char c)" for c :: char
  proof -
    have "(of_char c :: int) = int (of_char c)" by (simp add: of_nat_of_char)
    moreover have "int (of_char c) < 65536" using nat_of_char_less_256 [of c] by linarith
    ultimately show ?thesis by (simp only: code_unit_def of_nat_0_le_iff)
  qed
  then show ?thesis by (auto simp: code_units_def js_def)
qed

section \<open>Text codecs\<close>

text \<open>
  The contract that the clients of a textual encoding rely on: what was printed parses back. The
  sources use it for everything they keep in \<open>localStorage\<close> or in a text field.
\<close>

locale text_codec =
  fixes encode :: "'a \<Rightarrow> jstr"
    and decode :: "jstr \<Rightarrow> 'a option"
    and valid :: "'a \<Rightarrow> bool"
  assumes decode_encode: "valid v \<Longrightarrow> decode (encode v) = Some v"
begin

lemma encode_inj: "valid v \<Longrightarrow> valid w \<Longrightarrow> encode v = encode w \<Longrightarrow> v = w"
  by (metis decode_encode option.inject)

definition read_item :: "(jstr, jstr) jmap \<Rightarrow> jstr \<Rightarrow> 'a option" where
  "read_item store key = Option.bind (map_get store key) decode"

definition write_item :: "(jstr, jstr) jmap \<Rightarrow> jstr \<Rightarrow> 'a \<Rightarrow> (jstr, jstr) jmap" where
  "write_item store key v = map_set key (encode v) store"

lemma read_after_write: "valid v \<Longrightarrow> read_item (write_item store key v) key = Some v"
  by (simp add: read_item_def write_item_def jm.get_put decode_encode)

lemma read_other: "k \<noteq> key \<Longrightarrow> read_item (write_item store key v) k = read_item store k"
  by (simp add: read_item_def write_item_def jm.get_put)

end

interpretation compact: text_codec "JSON_stringify []" JSON_parse serialisable
  by unfold_locales (simp add: JSON_parse_stringify)

interpretation indented: text_codec "JSON_stringify [32, 32]" JSON_parse serialisable
  by unfold_locales (simp add: JSON_parse_stringify blank_def json_ws_def)

end
