(* ===== verification/PgMessage.thy ===== *)
theory PgMessage
  imports JsPrelude
begin

text \<open>
  The message model of the playground (\<open>features/playground/types.ts\<close>, \<open>constants.ts\<close> and
  \<open>lib/message/*.ts\<close>): the data, the constructors, the reasoning-tag parser, the timing of a
  reply, the streaming updates, the finalisation of a reply, the repair of a reloaded
  conversation, the edits of a conversation and the render states.

  \<open>Date.now()\<close> is the argument \<open>now\<close> (one reading per handler) and \<open>nanoid()\<close> is a pair of
  identifiers handed in by the caller. A field that is absent or \<open>undefined\<close> is \<open>None\<close>.
\<close>

section \<open>Data\<close>

datatype message_role = RoleUser | RoleAssistant | RoleSystem

datatype message_status = StLoading | StStreaming | StComplete | StError

record message_version =
  v_id :: jstr
  v_content :: jstr

record reasoning =
  r_content :: jstr
  r_duration :: jsnum
  r_startedAt :: "jsnum option"
  r_completedAt :: "jsnum option"
  r_durationMs :: "jsnum option"

record source_link =
  s_href :: jstr
  s_title :: jstr

record message =
  m_key :: jstr
  m_from :: message_role
  m_versions :: "message_version list"
  m_createdAt :: "jsnum option"
  m_startedAt :: "jsnum option"
  m_completedAt :: "jsnum option"
  m_durationMs :: "jsnum option"
  m_sources :: "source_link list option"
  m_reasoning :: "reasoning option"
  m_isReasoningStreaming :: "bool option"
  m_isReasoningComplete :: "bool option"
  m_isContentComplete :: "bool option"
  m_status :: "message_status option"
  m_errorCode :: "jstr option option"
  m_pendingAutoResend :: "bool option"

text \<open>The error texts of \<open>constants.ts\<close>.\<close>

definition API_REQUEST_ERROR :: jstr where
  "API_REQUEST_ERROR = js ''Request error occurred''"
definition NETWORK_ERROR :: jstr where
  "NETWORK_ERROR = js ''Network connection failed or server not responding''"
definition PARSE_ERROR :: jstr where
  "PARSE_ERROR = js ''Error parsing response data''"
definition STREAM_START_ERROR :: jstr where
  "STREAM_START_ERROR = js ''Error establishing connection''"
definition CONNECTION_CLOSED :: jstr where
  "CONNECTION_CLOSED = js ''Connection closed''"
definition INTERRUPTED :: jstr where
  "INTERRUPTED = js ''Generation was interrupted''"

lemmas error_message_defs =
  API_REQUEST_ERROR_def NETWORK_ERROR_def PARSE_ERROR_def STREAM_START_ERROR_def
  CONNECTION_CLOSED_def INTERRUPTED_def

section \<open>message-utils.ts\<close>

type_synonym fresh_ids = "jstr \<times> jstr"

definition createMessageVersion :: "jstr \<Rightarrow> jstr \<Rightarrow> message_version" where
  "createMessageVersion nid content = \<lparr>v_id = nid, v_content = content\<rparr>"

definition getCurrentVersion :: "message \<Rightarrow> message_version" where
  "getCurrentVersion m = (case m_versions m of [] \<Rightarrow> \<lparr>v_id = js ''default'', v_content = []\<rparr> | v # _ \<Rightarrow> v)"

definition getMessageContent :: "message \<Rightarrow> jstr" where
  "getMessageContent m = v_content (getCurrentVersion m)"

definition hasMessageContent :: "message \<Rightarrow> bool" where
  "hasMessageContent m \<longleftrightarrow> trim (getMessageContent m) \<noteq> []"

definition updateCurrentVersionContent :: "message \<Rightarrow> jstr \<Rightarrow> message" where
  "updateCurrentVersionContent m content =
     m\<lparr>m_versions := [(getCurrentVersion m)\<lparr>v_content := content\<rparr>]\<rparr>"

definition createUserMessage :: "fresh_ids \<Rightarrow> jstr \<Rightarrow> jsnum \<Rightarrow> message" where
  "createUserMessage ids content createdAt =
     \<lparr>m_key = fst ids, m_from = RoleUser, m_versions = [createMessageVersion (snd ids) content],
      m_createdAt = Some createdAt, m_startedAt = None, m_completedAt = None, m_durationMs = None,
      m_sources = None, m_reasoning = None, m_isReasoningStreaming = None,
      m_isReasoningComplete = None, m_isContentComplete = None, m_status = None,
      m_errorCode = None, m_pendingAutoResend = None\<rparr>"

definition createLoadingAssistantMessage :: "fresh_ids \<Rightarrow> jsnum \<Rightarrow> message" where
  "createLoadingAssistantMessage ids startedAt =
     \<lparr>m_key = fst ids, m_from = RoleAssistant, m_versions = [createMessageVersion (snd ids) []],
      m_createdAt = Some startedAt, m_startedAt = Some startedAt, m_completedAt = None,
      m_durationMs = None, m_sources = None, m_reasoning = None,
      m_isReasoningStreaming = Some False, m_isReasoningComplete = Some False,
      m_isContentComplete = Some False, m_status = Some StLoading, m_errorCode = None,
      m_pendingAutoResend = None\<rparr>"

datatype content_part_type = PartText | PartImageUrl

record content_part =
  p_type :: content_part_type
  p_text :: "jstr option"
  p_image_url :: "jstr option"

datatype message_content = TextContent jstr | PartsContent "content_part list"

definition buildMessageContent :: "jstr \<Rightarrow> jstr list \<Rightarrow> message_content" where
  "buildMessageContent text imageUrls =
     (let validImages = filter (\<lambda>url. trim url \<noteq> []) imageUrls in
      if validImages = [] then TextContent text
      else PartsContent
        (\<lparr>p_type = PartText, p_text = Some text, p_image_url = None\<rparr>
         # map (\<lambda>url. \<lparr>p_type = PartImageUrl, p_text = None, p_image_url = Some (trim url)\<rparr>) validImages))"

fun getTextContent :: "message_content \<Rightarrow> jstr" where
  "getTextContent (TextContent s) = s"
| "getTextContent (PartsContent ps) =
     (case List.find (\<lambda>p. p_type p = PartText) ps of None \<Rightarrow> [] | Some p \<Rightarrow> opt_str (p_text p))"

record chat_completion_message =
  c_role :: message_role
  c_content :: message_content

definition formatMessageForAPI :: "message \<Rightarrow> chat_completion_message" where
  "formatMessageForAPI m =
     \<lparr>c_role = m_from m, c_content = TextContent (v_content (getCurrentVersion m))\<rparr>"

definition isValidMessage :: "message \<Rightarrow> bool" where
  "isValidMessage m \<longleftrightarrow>
     (if m_versions m = [] then False
      else if m_from m = RoleAssistant \<and> \<not> hasMessageContent m then False
      else True)"

lemma getMessageContent_update [simp]:
  "getMessageContent (updateCurrentVersionContent m content) = content"
  by (simp add: getMessageContent_def getCurrentVersion_def updateCurrentVersionContent_def)

lemma getCurrentVersion_cong:
  "m_versions m = m_versions m' \<Longrightarrow> getCurrentVersion m = getCurrentVersion m'"
  by (simp add: getCurrentVersion_def)

lemma updateCurrentVersionContent_fields [simp]:
  "m_key (updateCurrentVersionContent m c) = m_key m"
  "m_from (updateCurrentVersionContent m c) = m_from m"
  "m_reasoning (updateCurrentVersionContent m c) = m_reasoning m"
  "m_status (updateCurrentVersionContent m c) = m_status m"
  "m_startedAt (updateCurrentVersionContent m c) = m_startedAt m"
  "m_createdAt (updateCurrentVersionContent m c) = m_createdAt m"
  "m_pendingAutoResend (updateCurrentVersionContent m c) = m_pendingAutoResend m"
  "m_versions (updateCurrentVersionContent m c) \<noteq> []"
  by (simp_all add: updateCurrentVersionContent_def)

section \<open>message-timing-utils.ts\<close>

definition completeAssistantTiming :: "message \<Rightarrow> jsnum \<Rightarrow> message" where
  "completeAssistantTiming m completedAt =
     (if m_from m \<noteq> RoleAssistant then m
      else let startedAt = nullish_or (nullish (m_startedAt m) (m_createdAt m)) completedAt in
        m\<lparr>m_startedAt := Some startedAt, m_completedAt := Some completedAt,
          m_durationMs := Some (max 0 (completedAt - startedAt))\<rparr>)"

definition startReasoningTiming :: "message \<Rightarrow> jsnum \<Rightarrow> reasoning" where
  "startReasoningTiming m startedAt =
     (case m_reasoning m of
        None \<Rightarrow> \<lparr>r_content = [], r_duration = 0, r_startedAt = Some startedAt,
                 r_completedAt = None, r_durationMs = None\<rparr>
      | Some r \<Rightarrow> \<lparr>r_content = r_content r, r_duration = r_duration r,
                   r_startedAt = Some (nullish_or (r_startedAt r) startedAt),
                   r_completedAt = r_completedAt r, r_durationMs = r_durationMs r\<rparr>)"

definition completeReasoningTiming :: "message \<Rightarrow> jsnum \<Rightarrow> message" where
  "completeReasoningTiming m completedAt =
     (case m_reasoning m of
        None \<Rightarrow> m
      | Some r \<Rightarrow>
          (if r_durationMs r \<noteq> None then m
           else let startedAt = nullish_or (nullish (r_startedAt r) (m_startedAt m)) completedAt;
                    durationMs = max 0 (completedAt - startedAt) in
             m\<lparr>m_reasoning := Some (r\<lparr>r_startedAt := Some startedAt, r_completedAt := Some completedAt,
                 r_durationMs := Some durationMs, r_duration := Math_ceil (durationMs / 1000)\<rparr>)\<rparr>))"

lemma completeAssistantTiming_fields [simp]:
  "m_key (completeAssistantTiming m t) = m_key m"
  "m_from (completeAssistantTiming m t) = m_from m"
  "m_versions (completeAssistantTiming m t) = m_versions m"
  "m_reasoning (completeAssistantTiming m t) = m_reasoning m"
  "m_status (completeAssistantTiming m t) = m_status m"
  "m_errorCode (completeAssistantTiming m t) = m_errorCode m"
  "m_isReasoningStreaming (completeAssistantTiming m t) = m_isReasoningStreaming m"
  "m_pendingAutoResend (completeAssistantTiming m t) = m_pendingAutoResend m"
  by (simp_all add: completeAssistantTiming_def Let_def)

lemma completeReasoningTiming_fields [simp]:
  "m_key (completeReasoningTiming m t) = m_key m"
  "m_from (completeReasoningTiming m t) = m_from m"
  "m_versions (completeReasoningTiming m t) = m_versions m"
  "m_status (completeReasoningTiming m t) = m_status m"
  "m_createdAt (completeReasoningTiming m t) = m_createdAt m"
  "m_startedAt (completeReasoningTiming m t) = m_startedAt m"
  "m_errorCode (completeReasoningTiming m t) = m_errorCode m"
  "m_isReasoningStreaming (completeReasoningTiming m t) = m_isReasoningStreaming m"
  "m_pendingAutoResend (completeReasoningTiming m t) = m_pendingAutoResend m"
  by (simp_all add: completeReasoningTiming_def Let_def split: option.splits)

lemma startReasoningTiming_content [simp]:
  "r_content (startReasoningTiming m t) = (case m_reasoning m of None \<Rightarrow> [] | Some r \<Rightarrow> r_content r)"
  by (simp add: startReasoningTiming_def split: option.splits)

lemma completeReasoningTiming_content:
  "map_option r_content (m_reasoning (completeReasoningTiming m t)) = map_option r_content (m_reasoning m)"
  by (simp add: completeReasoningTiming_def Let_def split: option.splits)

section \<open>message-reasoning-utils.ts\<close>

record parsed_think_tags =
  visibleContent :: jstr
  pt_reasoning :: jstr
  hasUnclosedTag :: bool

definition THINK_OPEN :: jstr where
  "THINK_OPEN = js ''<think>''"
definition THINK_CLOSE :: jstr where
  "THINK_CLOSE = js ''</think>''"

definition PARAGRAPH :: jstr where
  "PARAGRAPH = [10, 10]"

lemma indexOf_from_bounds:
  "indexOf_from s p k = Some i \<Longrightarrow> p \<noteq> [] \<Longrightarrow> k \<le> i \<and> i + length p \<le> length s"
proof -
  assume *: "indexOf_from s p k = Some i" "p \<noteq> []"
  then obtain j where j: "index_of p (drop k s) = Some j" "i = k + j"
    by (auto simp: indexOf_from_def)
  then have "j + length p \<le> length s - k" using index_of_bound by fastforce
  with * j show ?thesis by (cases p) auto
qed

function think_loop :: "jstr \<Rightarrow> nat \<Rightarrow> jstr list \<Rightarrow> jstr list \<Rightarrow> jstr list \<times> jstr list \<times> bool" where
  "think_loop content currentPos visibleParts reasoningParts =
     (case indexOf_from content THINK_OPEN currentPos of
        None \<Rightarrow>
          (if currentPos < length content then visibleParts @ [drop currentPos content] else visibleParts,
           reasoningParts, False)
      | Some openPos \<Rightarrow>
          (let visibleParts' =
                 (if openPos > currentPos then visibleParts @ [slice content currentPos openPos]
                  else visibleParts) in
           (case indexOf_from content THINK_CLOSE (openPos + 7) of
              None \<Rightarrow> (visibleParts', reasoningParts @ [drop (openPos + 7) content], True)
            | Some closePos \<Rightarrow>
                think_loop content (closePos + 8) visibleParts'
                  (reasoningParts @ [slice content (openPos + 7) closePos]))))"
  by pat_completeness auto
termination
proof (relation "measure (\<lambda>(content, pos, _, _). length content - pos)", goal_cases)
  case 1
  then show ?case by simp
next
  case (2 content currentPos visibleParts reasoningParts openPos vis closePos)
  have "currentPos \<le> openPos \<and> openPos + 7 \<le> length content"
    using indexOf_from_bounds [OF 2(1)] by (simp add: THINK_OPEN_def)
  moreover have "openPos + 7 \<le> closePos"
    using indexOf_from_bounds [OF 2(3)] by (simp add: THINK_CLOSE_def)
  ultimately show ?case by simp linarith
qed

declare think_loop.simps [simp del]

definition parseThinkTags :: "jstr \<Rightarrow> parsed_think_tags" where
  "parseThinkTags content =
     (if \<not> str_includes content THINK_OPEN
      then \<lparr>visibleContent = content, pt_reasoning = [], hasUnclosedTag = False\<rparr>
      else case think_loop content 0 [] [] of
        (visibleParts, reasoningParts, unclosed) \<Rightarrow>
          \<lparr>visibleContent = trim (join [] visibleParts),
           pt_reasoning = trim (join PARAGRAPH reasoningParts),
           hasUnclosedTag = unclosed\<rparr>)"

section \<open>sanitize-on-load.ts\<close>

definition isAssistantMessagePending :: "message \<Rightarrow> bool" where
  "isAssistantMessagePending m \<longleftrightarrow> m_status m = Some StLoading \<or> m_status m = Some StStreaming"

definition isPendingAssistantMessage :: "message option \<Rightarrow> bool" where
  "isPendingAssistantMessage mo =
     (case mo of None \<Rightarrow> False | Some m \<Rightarrow> m_from m = RoleAssistant \<and> isAssistantMessagePending m)"

definition sanitizeMessagesOnLoad :: "message list \<Rightarrow> message list" where
  "sanitizeMessagesOnLoad messages =
     (case findLastIndex (\<lambda>m. isPendingAssistantMessage (Some m)) messages of
        None \<Rightarrow> messages
      | Some targetIndex \<Rightarrow>
          messages[targetIndex := (messages ! targetIndex)
            \<lparr>m_status := Some StLoading, m_isReasoningStreaming := Some False,
             m_pendingAutoResend := Some True\<rparr>])"

section \<open>message-streaming-utils.ts\<close>

datatype stream_chunk_type = ChunkReasoning | ChunkContent

definition processStreamingContent :: "jsnum \<Rightarrow> message \<Rightarrow> jstr option \<Rightarrow> message" where
  "processStreamingContent now m contentChunk =
     (let currentVersion = getCurrentVersion m;
          fullContent = v_content currentVersion @ opt_str contentChunk in
      if m_reasoning m = None \<and> \<not> str_includes fullContent THINK_OPEN
      then (updateCurrentVersionContent m fullContent)\<lparr>m_isReasoningStreaming := Some False\<rparr>
      else let parsed = parseThinkTags fullContent;
               finalReasoning =
                 (if pt_reasoning parsed \<noteq> []
                  then Some ((startReasoningTiming m now)\<lparr>r_content := pt_reasoning parsed\<rparr>)
                  else m_reasoning m) in
        (updateCurrentVersionContent m fullContent)
          \<lparr>m_reasoning := finalReasoning, m_isReasoningStreaming := Some (hasUnclosedTag parsed)\<rparr>)"

definition getAppendableChunk :: "jstr \<Rightarrow> jstr \<Rightarrow> jstr" where
  "getAppendableChunk currentContent chunk =
     (if currentContent = [] \<or> \<not> startsWith chunk currentContent then chunk
      else drop (length currentContent) chunk)"

definition applyStreamingChunk :: "jsnum \<Rightarrow> message \<Rightarrow> stream_chunk_type \<Rightarrow> jstr \<Rightarrow> message" where
  "applyStreamingChunk now m ty chunk =
     (if m_status m = Some StError then m
      else if ty = ChunkReasoning then
        (let reasoning = startReasoningTiming m now;
             appendableChunk = getAppendableChunk (r_content reasoning) chunk in
         m\<lparr>m_reasoning := Some (reasoning\<lparr>r_content := r_content reasoning @ appendableChunk\<rparr>),
           m_isReasoningStreaming := Some True, m_status := Some StStreaming\<rparr>)
      else
        (let currentVersion = getCurrentVersion m;
             appendableChunk = getAppendableChunk (v_content currentVersion) chunk;
             contentMessage = processStreamingContent now m (Some appendableChunk) in
         (if truthy (m_isReasoningStreaming contentMessage) then contentMessage
          else completeReasoningTiming contentMessage now)\<lparr>m_status := Some StStreaming\<rparr>))"

definition finalizeMessage :: "jsnum \<Rightarrow> message \<Rightarrow> jstr option \<Rightarrow> message" where
  "finalizeMessage now m apiReasoningContent =
     (let currentVersion = getCurrentVersion m;
          parsedThinkTags =
            (if str_includes (v_content currentVersion) THINK_OPEN
             then Some (parseThinkTags (v_content currentVersion)) else None);
          visible = nullish_or (map_option visibleContent parsedThinkTags) (v_content currentVersion);
          finalReasoning =
            or_str (opt_str apiReasoningContent)
              (or_str (opt_str (map_option r_content (m_reasoning m)))
                (opt_str (map_option pt_reasoning parsedThinkTags)));
          finalized = (updateCurrentVersionContent m visible)
            \<lparr>m_reasoning :=
               (if finalReasoning \<noteq> []
                then Some ((startReasoningTiming m now)\<lparr>r_content := finalReasoning\<rparr>) else None),
             m_isReasoningStreaming := Some False\<rparr> in
      completeReasoningTiming finalized now)"

definition completeAssistantMessage :: "jsnum \<Rightarrow> message \<Rightarrow> message" where
  "completeAssistantMessage now m =
     completeAssistantTiming ((finalizeMessage now m None)\<lparr>m_status := Some StComplete\<rparr>) now"

definition isAssistantMessageFinal :: "message \<Rightarrow> bool" where
  "isAssistantMessageFinal m \<longleftrightarrow> m_status m = Some StComplete \<or> m_status m = Some StError"

text \<open>One choice of a non-streaming response, and the response as the list of its choices.\<close>

record chat_completion_choice =
  ch_content :: "jstr option"
  ch_reasoning_content :: "jstr option"

type_synonym chat_completion_response = "chat_completion_choice list option"

definition first_choice :: "chat_completion_response \<Rightarrow> chat_completion_choice option" where
  "first_choice response = (case response of Some (c # _) \<Rightarrow> Some c | _ \<Rightarrow> None)"

definition hasChatCompletionChoice :: "chat_completion_response \<Rightarrow> bool" where
  "hasChatCompletionChoice response \<longleftrightarrow> first_choice response \<noteq> None"

definition applyChatCompletionChoice :: "jsnum \<Rightarrow> message \<Rightarrow> chat_completion_choice \<Rightarrow> message" where
  "applyChatCompletionChoice now m choice =
     completeAssistantTiming
       ((finalizeMessage now (updateCurrentVersionContent m (opt_str (ch_content choice)))
          (ch_reasoning_content choice))\<lparr>m_status := Some StComplete\<rparr>) now"

definition applyChatCompletionResponse :: "jsnum \<Rightarrow> message \<Rightarrow> chat_completion_response \<Rightarrow> message option" where
  "applyChatCompletionResponse now m response =
     map_option (applyChatCompletionChoice now m) (first_choice response)"

section \<open>message-update-utils.ts\<close>

definition updateLastAssistantMessage :: "message list \<Rightarrow> (message \<Rightarrow> message) \<Rightarrow> message list" where
  "updateLastAssistantMessage messages updater =
     (if messages = [] then messages
      else if m_from (last messages) \<noteq> RoleAssistant then messages
      else messages[length messages - 1 := updater (last messages)])"

definition updateAssistantMessageWithError ::
  "jsnum \<Rightarrow> message list \<Rightarrow> jstr \<Rightarrow> jstr option \<Rightarrow> jstr \<Rightarrow> message list" where
  "updateAssistantMessageWithError now messages errorMessage errorCode title =
     updateLastAssistantMessage messages
       (\<lambda>m. completeAssistantTiming
          ((updateCurrentVersionContent m (title @ js '': '' @ errorMessage))
             \<lparr>m_status := Some StError, m_isReasoningStreaming := Some False,
              m_errorCode := Some (if opt_str errorCode = [] then None else errorCode)\<rparr>) now)"

section \<open>message-error-utils.ts, message-action-utils.ts, message-editor-utils.ts, message-layout-utils.ts\<close>

definition MODEL_PRICE_ERROR_CODE :: jstr where
  "MODEL_PRICE_ERROR_CODE = js ''model_price_error''"
definition FALLBACK_ERROR_CONTENT :: jstr where
  "FALLBACK_ERROR_CONTENT = js ''An unknown error occurred''"

datatype error_kind = GenericError | ModelPriceError

record message_error_state =
  es_content :: jstr
  es_kind :: error_kind
  es_showSettingsLink :: bool

definition isAdminRole :: "jsnum option \<Rightarrow> bool" where
  "isAdminRole role = (case role of None \<Rightarrow> False | Some r \<Rightarrow> r \<ge> 10)"

definition isErrorMessage :: "message \<Rightarrow> bool" where
  "isErrorMessage m \<longleftrightarrow> m_status m = Some StError"

definition getMessageErrorState :: "message \<Rightarrow> bool \<Rightarrow> message_error_state option" where
  "getMessageErrorState m isAdmin =
     (if \<not> isErrorMessage m then None
      else let content = or_str (getMessageContent m) FALLBACK_ERROR_CONTENT;
               isModelPriceError = (m_errorCode m = Some (Some MODEL_PRICE_ERROR_CODE)) in
        Some \<lparr>es_content = content,
              es_kind = (if isModelPriceError then ModelPriceError else GenericError),
              es_showSettingsLink = (isModelPriceError \<and> isAdmin)\<rparr>)"

record message_action_state =
  as_content :: jstr
  as_hasContent :: bool
  as_isAssistant :: bool
  as_isLoading :: bool
  as_isUser :: bool

definition getMessageActionState :: "message \<Rightarrow> message_action_state" where
  "getMessageActionState m =
     \<lparr>as_content = getMessageContent m, as_hasContent = hasMessageContent m,
      as_isAssistant = (m_from m = RoleAssistant),
      as_isLoading = (m_status m = Some StLoading \<or> m_status m = Some StStreaming),
      as_isUser = (m_from m = RoleUser)\<rparr>"

record message_editor_state =
  ed_canSave :: bool
  ed_hasChanged :: bool
  ed_showSaveAndSubmit :: bool

definition getMessageEditorState :: "message \<Rightarrow> jstr \<Rightarrow> jstr \<Rightarrow> message_editor_state" where
  "getMessageEditorState m editText originalText =
     (let hasText = length (trim editText) > 0; hasChanged = (editText \<noteq> originalText) in
      \<lparr>ed_canSave = (hasText \<and> hasChanged), ed_hasChanged = hasChanged,
       ed_showSaveAndSubmit = (m_from m = RoleUser)\<rparr>)"

datatype layout_mode = LayoutAlternating | LayoutLeft
datatype message_alignment = AlignLeft | AlignRight

definition getMessageAlignment :: "message \<Rightarrow> layout_mode \<Rightarrow> message_alignment" where
  "getMessageAlignment m layoutMode =
     (if layoutMode = LayoutLeft then AlignLeft
      else if m_from m = RoleUser then AlignRight else AlignLeft)"

section \<open>message-content-utils.ts\<close>

record message_content_state =
  cs_displayContent :: jstr
  cs_hasSources :: bool
  cs_isAssistant :: bool
  cs_showLoader :: bool
  cs_showMessageContent :: bool
  cs_sources :: "source_link list"
  cs_hasReasoning :: bool
  cs_reasoningContent :: "jstr option"

definition shouldShowMessageLoader :: "message \<Rightarrow> bool \<Rightarrow> jstr \<Rightarrow> bool" where
  "shouldShowMessageLoader m isAssistant versionContent \<longleftrightarrow>
     isAssistant \<and> \<not> truthy (m_isReasoningStreaming m) \<and>
     (m_status m = Some StLoading \<or> (m_status m = Some StStreaming \<and> versionContent = []))"

definition shouldShowMessageContent :: "message \<Rightarrow> jstr \<Rightarrow> bool" where
  "shouldShowMessageContent m versionContent \<longleftrightarrow>
     (m_from m = RoleUser \<or> \<not> truthy (m_isReasoningStreaming m)) \<and> length versionContent > 0"

definition getDisplayContent :: "message \<Rightarrow> jstr \<Rightarrow> jstr" where
  "getDisplayContent m versionContent =
     (if m_from m \<noteq> RoleAssistant then versionContent
      else if \<not> str_includes versionContent THINK_OPEN then versionContent
      else visibleContent (parseThinkTags versionContent))"

definition getMessageContentState :: "message \<Rightarrow> jstr \<Rightarrow> message_content_state" where
  "getMessageContentState m versionContent =
     (let isAssistant = (m_from m = RoleAssistant);
          sources = nullish_or (m_sources m) [];
          reasoningContent = (if isAssistant then map_option r_content (m_reasoning m) else None);
          showLoader = shouldShowMessageLoader m isAssistant versionContent;
          showMessageContent = shouldShowMessageContent m versionContent;
          hasR = (opt_str reasoningContent \<noteq> []) in
      \<lparr>cs_displayContent = getDisplayContent m versionContent,
       cs_hasSources = (length sources > 0), cs_isAssistant = isAssistant,
       cs_showLoader = showLoader, cs_showMessageContent = showMessageContent,
       cs_sources = sources, cs_hasReasoning = hasR,
       cs_reasoningContent = (if hasR then reasoningContent else None)\<rparr>)"

section \<open>conversation-message-utils.ts\<close>

definition appendUserMessagePair ::
  "jsnum \<Rightarrow> fresh_ids \<Rightarrow> fresh_ids \<Rightarrow> message list \<Rightarrow> jstr \<Rightarrow> message list" where
  "appendUserMessagePair now uids aids messages content =
     messages @ [createUserMessage uids content now, createLoadingAssistantMessage aids now]"

definition createRegeneratedMessages ::
  "jsnum \<Rightarrow> fresh_ids \<Rightarrow> message list \<Rightarrow> jstr \<Rightarrow> message list option" where
  "createRegeneratedMessages now aids messages messageKey =
     (case findIndex (\<lambda>m. m_key m = messageKey) messages of
        None \<Rightarrow> None
      | Some messageIndex \<Rightarrow>
          Some (if m_from (messages ! messageIndex) = RoleUser
                then slice messages 0 (messageIndex + 1) @ [createLoadingAssistantMessage aids now]
                else slice messages 0 messageIndex @ [createLoadingAssistantMessage aids now]))"

definition removeMessageByKey :: "message list \<Rightarrow> jstr \<Rightarrow> message list" where
  "removeMessageByKey messages messageKey = filter (\<lambda>m. m_key m \<noteq> messageKey) messages"

definition getPreviousUserMessage :: "message list \<Rightarrow> nat \<Rightarrow> message option" where
  "getPreviousUserMessage messages beforeIndex =
     map_option (\<lambda>i. messages ! i)
       (findLastIndex (\<lambda>m. m_from m = RoleUser) (take beforeIndex messages))"

record apply_edit_result =
  er_messages :: "message list"
  er_shouldSend :: bool

definition editedMessage :: "jsnum \<Rightarrow> jstr \<Rightarrow> jstr \<Rightarrow> bool \<Rightarrow> message \<Rightarrow> message" where
  "editedMessage now messageKey content shouldSubmit m =
     (if m_key m = messageKey
      then (updateCurrentVersionContent m content)
             \<lparr>m_createdAt := (if shouldSubmit then Some now else m_createdAt m)\<rparr>
      else m)"

definition applyMessageEdit ::
  "jsnum \<Rightarrow> fresh_ids \<Rightarrow> message list \<Rightarrow> jstr \<Rightarrow> jstr \<Rightarrow> bool \<Rightarrow> apply_edit_result option" where
  "applyMessageEdit now aids messages messageKey content shouldSubmit =
     (case findIndex (\<lambda>m. m_key m = messageKey) messages of
        None \<Rightarrow> None
      | Some messageIndex \<Rightarrow>
          (let updatedMessages = map (editedMessage now messageKey content shouldSubmit) messages in
           if \<not> shouldSubmit \<or> m_from (updatedMessages ! messageIndex) \<noteq> RoleUser
           then Some \<lparr>er_messages = updatedMessages, er_shouldSend = False\<rparr>
           else Some \<lparr>er_messages = slice updatedMessages 0 (messageIndex + 1)
                         @ [createLoadingAssistantMessage aids now],
                      er_shouldSend = True\<rparr>))"

definition getEditingMessageContent :: "message list \<Rightarrow> jstr option \<Rightarrow> jstr" where
  "getEditingMessageContent messages editingKey =
     (if opt_str editingKey = [] then []
      else case List.find (\<lambda>m. m_key m = opt_str editingKey) messages of
        None \<Rightarrow> [] | Some m \<Rightarrow> getMessageContent m)"

record chat_message_render_state =
  rs_alwaysShowActions :: bool
  rs_content :: jstr
  rs_isEditing :: bool

definition getChatMessageRenderState ::
  "message list \<Rightarrow> message \<Rightarrow> nat \<Rightarrow> jstr option \<Rightarrow> chat_message_render_state" where
  "getChatMessageRenderState messages m messageIndex editingKey =
     \<lparr>rs_alwaysShowActions = (int messageIndex = int (length messages) - 1 \<and> m_from m = RoleAssistant),
      rs_content = getMessageContent m,
      rs_isEditing = (editingKey = Some (m_key m))\<rparr>"

section \<open>Specifications\<close>

text \<open>
  A reply interleaves visible text with reasoning between tags: \<open>think_text segs tail\<close> is the raw
  text of the segments (visible text, reasoning) followed by the visible \<open>tail\<close>.
\<close>

fun think_text :: "(jstr \<times> jstr) list \<Rightarrow> jstr \<Rightarrow> jstr" where
  "think_text [] tail = tail"
| "think_text ((v, r) # segs) tail = v @ THINK_OPEN @ r @ THINK_CLOSE @ think_text segs tail"

definition clean_segs :: "(jstr \<times> jstr) list \<Rightarrow> bool" where
  "clean_segs segs \<longleftrightarrow>
     (\<forall>(v, r) \<in> set segs. \<not> str_includes v THINK_OPEN \<and> \<not> str_includes r THINK_CLOSE)"

text \<open>
  What a chunk does to the text received so far: a chunk that repeats the whole text is read as a
  snapshot and replaces it, any other chunk is appended.
\<close>

definition merge_chunk :: "jstr \<Rightarrow> jstr \<Rightarrow> jstr" where
  "merge_chunk current chunk = (if startsWith chunk current then chunk else current @ chunk)"

definition apply_chunks :: "message \<Rightarrow> (jsnum \<times> jstr) list \<Rightarrow> message" where
  "apply_chunks m chunks = foldl (\<lambda>m (now, c). applyStreamingChunk now m ChunkContent c) m chunks"

fun delta_run :: "jstr \<Rightarrow> jstr list \<Rightarrow> bool" where
  "delta_run current [] = True"
| "delta_run current (c # cs) = ((current = [] \<or> \<not> startsWith c current) \<and> delta_run (current @ c) cs)"

fun snapshot_run :: "jstr \<Rightarrow> jstr list \<Rightarrow> bool" where
  "snapshot_run current [] = True"
| "snapshot_run current (c # cs) = (startsWith c current \<and> snapshot_run c cs)"

text \<open>The invariant of a conversation: every message has a version and the keys are distinct.\<close>

definition wf_conversation :: "message list \<Rightarrow> bool" where
  "wf_conversation ms \<longleftrightarrow> distinct (map m_key ms) \<and> (\<forall>m \<in> set ms. m_versions m \<noteq> [])"

section \<open>The reasoning-tag parser\<close>

lemma join_Nil_concat: "join [] xs = concat xs"
  by (induction "[] :: jstr" xs rule: join.induct) auto

lemma concat_filter_ne: "concat (filter (\<lambda>x. x \<noteq> []) xs) = concat xs"
  by (induction xs) auto

lemma index_of_THINK_OPEN:
  "\<not> str_includes v THINK_OPEN \<Longrightarrow> index_of THINK_OPEN (v @ THINK_OPEN @ r) = Some (length v)"
  by (rule index_of_after_clean [where q = "js ''think>''" and c = 60]) (auto simp: THINK_OPEN_def js_def)

lemma index_of_THINK_CLOSE:
  "\<not> str_includes v THINK_CLOSE \<Longrightarrow> index_of THINK_CLOSE (v @ THINK_CLOSE @ r) = Some (length v)"
  by (rule index_of_after_clean [where q = "js ''/think>''" and c = 60]) (auto simp: THINK_CLOSE_def js_def)

lemma length_THINK [simp]: "length THINK_OPEN = 7" "length THINK_CLOSE = 8"
  by (simp_all add: THINK_OPEN_def THINK_CLOSE_def)

lemma indexOf_from_append:
  "indexOf_from (pre @ s) p (length pre) = map_option (\<lambda>i. length pre + i) (index_of p s)"
  by (simp add: indexOf_from_def)

text \<open>One round of the loop over a segment, and the two ways in which it ends.\<close>

lemma think_loop_segment:
  assumes "\<not> str_includes v THINK_OPEN" and "\<not> str_includes r THINK_CLOSE"
  shows "think_loop (pre @ v @ THINK_OPEN @ r @ THINK_CLOSE @ rest) (length pre) vis rea =
         think_loop ((pre @ v @ THINK_OPEN @ r @ THINK_CLOSE) @ rest)
           (length (pre @ v @ THINK_OPEN @ r @ THINK_CLOSE))
           (vis @ filter (\<lambda>x. x \<noteq> []) [v]) (rea @ [r])"
proof -
  let ?c = "pre @ v @ THINK_OPEN @ r @ THINK_CLOSE @ rest"
  have o: "indexOf_from ?c THINK_OPEN (length pre) = Some (length pre + length v)"
    by (simp add: indexOf_from_append index_of_THINK_OPEN [OF assms(1)])
  have "indexOf_from ((pre @ v @ THINK_OPEN) @ r @ THINK_CLOSE @ rest) THINK_CLOSE (length (pre @ v @ THINK_OPEN))
      = Some (length (pre @ v @ THINK_OPEN) + length r)"
    by (simp only: indexOf_from_append index_of_THINK_CLOSE [OF assms(2)]) simp
  then have c: "indexOf_from ?c THINK_CLOSE (length pre + length v + 7) = Some (length pre + length v + 7 + length r)"
    by (simp add: add.assoc)
  show ?thesis
    by (subst think_loop.simps, simp only: o c option.case Let_def) (cases "v = []", simp_all add: slice_def ac_simps)
qed

lemma think_loop_closed_end:
  assumes "\<not> str_includes tail THINK_OPEN"
  shows "think_loop (pre @ tail) (length pre) vis rea = (vis @ filter (\<lambda>x. x \<noteq> []) [tail], rea, False)"
  by (subst think_loop.simps) (simp add: indexOf_from_append index_of_clean [OF assms])

lemma think_loop_open_end:
  assumes "\<not> str_includes v THINK_OPEN" and "\<not> str_includes r THINK_CLOSE"
  shows "think_loop (pre @ v @ THINK_OPEN @ r) (length pre) vis rea =
         (vis @ filter (\<lambda>x. x \<noteq> []) [v], rea @ [r], True)"
proof -
  have o: "indexOf_from (pre @ v @ THINK_OPEN @ r) THINK_OPEN (length pre) = Some (length pre + length v)"
    by (simp add: indexOf_from_append index_of_THINK_OPEN [OF assms(1)])
  have "indexOf_from ((pre @ v @ THINK_OPEN) @ r) THINK_CLOSE (length (pre @ v @ THINK_OPEN)) = None"
    by (simp only: indexOf_from_append index_of_clean [OF assms(2)]) simp
  then have c: "indexOf_from (pre @ v @ THINK_OPEN @ r) THINK_CLOSE (length pre + length v + 7) = None"
    by (simp add: add.assoc)
  show ?thesis
    by (subst think_loop.simps, simp only: o c option.case Let_def) (cases "v = []", simp_all add: slice_def ac_simps)
qed

lemma think_loop_segments:
  "clean_segs segs \<Longrightarrow>
     think_loop (pre @ think_text segs tail) (length pre) vis rea =
     think_loop ((pre @ think_text segs []) @ tail) (length (pre @ think_text segs []))
       (vis @ filter (\<lambda>x. x \<noteq> []) (map fst segs)) (rea @ map snd segs)"
proof (induction segs arbitrary: pre vis rea)
  case Nil
  then show ?case by simp
next
  case (Cons seg segs)
  obtain v r where seg: "seg = (v, r)" by (cases seg)
  from Cons.prems seg have clean: "\<not> str_includes v THINK_OPEN" "\<not> str_includes r THINK_CLOSE" "clean_segs segs"
    by (auto simp: clean_segs_def)
  let ?pre = "pre @ v @ THINK_OPEN @ r @ THINK_CLOSE"
  have "think_loop (pre @ think_text (seg # segs) tail) (length pre) vis rea =
        think_loop (?pre @ think_text segs tail) (length ?pre) (vis @ filter (\<lambda>x. x \<noteq> []) [v]) (rea @ [r])"
    using think_loop_segment [OF clean(1,2), of pre "think_text segs tail" vis rea] by (simp add: seg)
  also have "\<dots> = think_loop ((?pre @ think_text segs []) @ tail) (length (?pre @ think_text segs []))
      ((vis @ filter (\<lambda>x. x \<noteq> []) [v]) @ filter (\<lambda>x. x \<noteq> []) (map fst segs)) ((rea @ [r]) @ map snd segs)"
    by (rule Cons.IH [OF clean(3)])
  finally show ?case by (simp add: seg)
qed

lemma think_text_append: "think_text segs (a @ b) = think_text segs a @ b"
  by (induction segs) auto

lemma includes_think_text: "segs \<noteq> [] \<Longrightarrow> str_includes (think_text segs tail) THINK_OPEN"
proof (cases segs)
  case (Cons s ss)
  obtain v r where "s = (v, r)" by (cases s)
  with Cons show ?thesis
    by (simp add: includes_iff) blast
qed simp

text \<open>C14. A reply whose reasoning is wholly tagged is split exactly: the visible text is the text
  outside the tags (trimmed), the reasoning the tagged parts separated by blank lines (trimmed),
  and no tag is reported open.\<close>

theorem parseThinkTags_closed:
  assumes "segs \<noteq> []" and "clean_segs segs" and "\<not> str_includes tail THINK_OPEN"
  shows "parseThinkTags (think_text segs tail) =
         \<lparr>visibleContent = trim (concat (map fst segs) @ tail),
          pt_reasoning = trim (join PARAGRAPH (map snd segs)), hasUnclosedTag = False\<rparr>"
proof -
  have "think_loop (think_text segs tail) 0 [] [] =
        (filter (\<lambda>x. x \<noteq> []) (map fst segs @ [tail]), map snd segs, False)"
    using think_loop_segments [OF assms(2), of "[]" tail "[]" "[]"]
      think_loop_closed_end [OF assms(3), of "think_text segs []" "filter (\<lambda>x. x \<noteq> []) (map fst segs)" "map snd segs"]
    by (simp flip: think_text_append)
  with includes_think_text [OF assms(1)] show ?thesis
    by (simp add: parseThinkTags_def join_Nil_concat concat_filter_ne del: filter_append)
qed

theorem parseThinkTags_closed_witness:
  "parseThinkTags (js ''<think>plan</think>Hi'') =
     \<lparr>visibleContent = js ''Hi'', pt_reasoning = js ''plan'', hasUnclosedTag = False\<rparr>"
proof -
  have segs: "[([], js ''plan'')] \<noteq> []" by simp
  have clean: "clean_segs [([], js ''plan'')]" "\<not> str_includes (js ''Hi'') THINK_OPEN"
    by code_simp+
  have raw: "think_text [([], js ''plan'')] (js ''Hi'') = js ''<think>plan</think>Hi''"
    by code_simp
  have trims: "trim (js ''Hi'') = js ''Hi''" "trim (js ''plan'') = js ''plan''"
    by code_simp+
  show ?thesis
    using parseThinkTags_closed [OF segs clean, unfolded raw] by (simp add: trims)
qed

text \<open>C15. While the last reasoning part is still being written, the parser reports the open tag,
  counts the unfinished part as reasoning and shows none of it.\<close>

theorem parseThinkTags_open:
  assumes "clean_segs segs" and "\<not> str_includes v THINK_OPEN" and "\<not> str_includes r THINK_CLOSE"
  shows "parseThinkTags (think_text segs (v @ THINK_OPEN @ r)) =
         \<lparr>visibleContent = trim (concat (map fst segs) @ v),
          pt_reasoning = trim (join PARAGRAPH (map snd segs @ [r])), hasUnclosedTag = True\<rparr>"
proof -
  have "think_loop (think_text segs (v @ THINK_OPEN @ r)) 0 [] [] =
        (filter (\<lambda>x. x \<noteq> []) (map fst segs @ [v]), map snd segs @ [r], True)"
    using think_loop_segments [OF assms(1), of "[]" "v @ THINK_OPEN @ r" "[]" "[]"]
      think_loop_open_end [OF assms(2,3), of "think_text segs []" "filter (\<lambda>x. x \<noteq> []) (map fst segs)" "map snd segs"]
    by (simp flip: think_text_append)
  moreover have "str_includes (think_text segs (v @ THINK_OPEN @ r)) THINK_OPEN"
    by (metis append.assoc includes_iff think_text_append)
  ultimately show ?thesis
    by (simp add: parseThinkTags_def join_Nil_concat concat_filter_ne del: filter_append)
qed

theorem parseThinkTags_open_witness:
  "parseThinkTags (js ''A<think>b'') =
     \<lparr>visibleContent = js ''A'', pt_reasoning = js ''b'', hasUnclosedTag = True\<rparr>"
proof -
  have clean: "clean_segs []" "\<not> str_includes (js ''A'') THINK_OPEN" "\<not> str_includes (js ''b'') THINK_CLOSE"
    by code_simp+
  have raw: "think_text [] (js ''A'' @ THINK_OPEN @ js ''b'') = js ''A<think>b''"
    by code_simp
  have trims: "trim (js ''A'') = js ''A''" "trim (js ''b'') = js ''b''"
    by code_simp+
  show ?thesis
    using parseThinkTags_open [OF clean, unfolded raw] by (simp add: trims)
qed

section \<open>Streaming\<close>

lemma append_getAppendableChunk: "current @ getAppendableChunk current c = merge_chunk current c"
  by (auto simp: getAppendableChunk_def merge_chunk_def startsWith_split)

lemma getMessageContent_processStreamingContent:
  "getMessageContent (processStreamingContent now m c) = getMessageContent m @ opt_str c"
  by (simp add: processStreamingContent_def Let_def getMessageContent_def getCurrentVersion_def
      updateCurrentVersionContent_def)

lemma processStreamingContent_fields [simp]:
  "m_key (processStreamingContent now m c) = m_key m"
  "m_from (processStreamingContent now m c) = m_from m"
  "m_status (processStreamingContent now m c) = m_status m"
  "m_pendingAutoResend (processStreamingContent now m c) = m_pendingAutoResend m"
  "m_versions (processStreamingContent now m c) \<noteq> []"
  by (simp_all add: processStreamingContent_def Let_def)

lemma getMessageContent_status [simp]: "getMessageContent (m\<lparr>m_status := x\<rparr>) = getMessageContent m"
  by (simp add: getMessageContent_def getCurrentVersion_def)

lemma getMessageContent_timing [simp]:
  "getMessageContent (completeReasoningTiming m t) = getMessageContent m"
  "getMessageContent (completeAssistantTiming m t) = getMessageContent m"
  by (simp_all add: getMessageContent_def getCurrentVersion_def)

lemma applyStreamingChunk_fields [simp]:
  "m_key (applyStreamingChunk now m ty c) = m_key m"
  "m_from (applyStreamingChunk now m ty c) = m_from m"
  "m_pendingAutoResend (applyStreamingChunk now m ty c) = m_pendingAutoResend m"
  by (simp_all add: applyStreamingChunk_def Let_def)

lemma applyStreamingChunk_status:
  "m_status (applyStreamingChunk now m ty c) = (if m_status m = Some StError then Some StError else Some StStreaming)"
  by (simp add: applyStreamingChunk_def Let_def)

lemma applyStreamingChunk_versions: "m_versions m \<noteq> [] \<Longrightarrow> m_versions (applyStreamingChunk now m ty c) \<noteq> []"
  by (simp add: applyStreamingChunk_def Let_def)

lemma getMessageContent_applyStreamingChunk:
  "m_status m \<noteq> Some StError \<Longrightarrow>
     getMessageContent (applyStreamingChunk now m ChunkContent c) = merge_chunk (getMessageContent m) c"
  by (simp add: applyStreamingChunk_def Let_def getMessageContent_processStreamingContent
      append_getAppendableChunk [symmetric] flip: getMessageContent_def)

text \<open>C16. A chunk never touches a failed reply. On any other reply a content chunk merges into the
  text received so far, a reasoning chunk merges into the reasoning received so far, and the
  reply is streaming afterwards.\<close>

theorem applyStreamingChunk_merges:
  "(m_status m = Some StError \<longrightarrow> applyStreamingChunk now m ty chunk = m) \<and>
   (m_status m \<noteq> Some StError \<longrightarrow>
     m_status (applyStreamingChunk now m ty chunk) = Some StStreaming \<and>
     (ty = ChunkContent \<longrightarrow>
        getMessageContent (applyStreamingChunk now m ty chunk) = merge_chunk (getMessageContent m) chunk) \<and>
     (ty = ChunkReasoning \<longrightarrow>
        getMessageContent (applyStreamingChunk now m ty chunk) = getMessageContent m \<and>
        map_option r_content (m_reasoning (applyStreamingChunk now m ty chunk)) =
          Some (merge_chunk (opt_str (map_option r_content (m_reasoning m))) chunk)))"
proof -
  have "r_content (startReasoningTiming m now) = opt_str (map_option r_content (m_reasoning m))"
    by (simp split: option.splits)
  then show ?thesis
    by (cases ty)
      (auto simp: getMessageContent_applyStreamingChunk applyStreamingChunk_status,
       auto simp: applyStreamingChunk_def Let_def append_getAppendableChunk getMessageContent_def
         getCurrentVersion_def)
qed

theorem applyStreamingChunk_merges_witness:
  "m_status (createLoadingAssistantMessage (js ''k'', js ''v'') 1) \<noteq> Some StError \<and>
   getMessageContent (applyStreamingChunk 2 (createLoadingAssistantMessage (js ''k'', js ''v'') 1)
     ChunkContent (js ''Hi'')) = js ''Hi''"
proof -
  let ?m = "createLoadingAssistantMessage (js ''k'', js ''v'') 1"
  have s: "m_status ?m \<noteq> Some StError" by (simp add: createLoadingAssistantMessage_def)
  have c: "merge_chunk (getMessageContent ?m) (js ''Hi'') = js ''Hi''"
    by (simp add: createLoadingAssistantMessage_def getMessageContent_def getCurrentVersion_def
        createMessageVersion_def merge_chunk_def)
  show ?thesis
    using applyStreamingChunk_merges [of ?m 2 ChunkContent "js ''Hi''"] s c by simp
qed

lemma apply_chunks_simps [simp]:
  "apply_chunks m [] = m"
  "apply_chunks m ((now, c) # cs) = apply_chunks (applyStreamingChunk now m ChunkContent c) cs"
  by (simp_all add: apply_chunks_def)

text \<open>C17. A stream of deltas, none of which begins with the whole text received before it, is
  received without loss: the reply is the text so far followed by the chunks in order.\<close>

theorem apply_chunks_delta:
  assumes "m_status m \<noteq> Some StError" and "delta_run (getMessageContent m) (map snd chunks)"
  shows "getMessageContent (apply_chunks m chunks) = getMessageContent m @ concat (map snd chunks)"
  using assms
proof (induction chunks arbitrary: m)
  case Nil
  then show ?case by simp
next
  case (Cons tc chunks)
  obtain now c where tc: "tc = (now, c)" by (cases tc)
  let ?m = "applyStreamingChunk now m ChunkContent c"
  have content: "getMessageContent ?m = getMessageContent m @ c"
    using Cons.prems tc by (auto simp: getMessageContent_applyStreamingChunk merge_chunk_def)
  have "m_status ?m \<noteq> Some StError" using Cons.prems(1) by (simp add: applyStreamingChunk_status)
  moreover have "delta_run (getMessageContent ?m) (map snd chunks)" using Cons.prems(2) tc content by simp
  ultimately have "getMessageContent (apply_chunks ?m chunks) = getMessageContent ?m @ concat (map snd chunks)"
    by (rule Cons.IH)
  with tc content show ?case by simp
qed

theorem apply_chunks_delta_witness:
  "delta_run [] [js ''Hel'', js ''lo'', js ''!''] \<and>
   getMessageContent (apply_chunks (createLoadingAssistantMessage (js ''k'', js ''v'') 0)
     [(1, js ''Hel''), (2, js ''lo''), (3, js ''!'')]) = js ''Hello!''"
proof -
  let ?m = "createLoadingAssistantMessage (js ''k'', js ''v'') 0"
  have m: "m_status ?m \<noteq> Some StError" "getMessageContent ?m = []"
    by (simp_all add: createLoadingAssistantMessage_def getMessageContent_def getCurrentVersion_def
        createMessageVersion_def)
  have d: "delta_run [] [js ''Hel'', js ''lo'', js ''!'']"
    by code_simp
  have j: "js ''Hel'' @ js ''lo'' @ js ''!'' = js ''Hello!''"
    by code_simp
  show ?thesis
    using apply_chunks_delta [of ?m "[(1, js ''Hel''), (2, js ''lo''), (3, js ''!'')]"] m d j by simp
qed

text \<open>C18. A stream of snapshots, each of which extends the text received before it, leaves the
  last snapshot as the reply.\<close>

theorem apply_chunks_snapshot:
  assumes "m_status m \<noteq> Some StError" and "snapshot_run (getMessageContent m) (map snd chunks)"
  shows "getMessageContent (apply_chunks m chunks) = last (getMessageContent m # map snd chunks)"
  using assms
proof (induction chunks arbitrary: m)
  case Nil
  then show ?case by simp
next
  case (Cons tc chunks)
  obtain now c where tc: "tc = (now, c)" by (cases tc)
  let ?m = "applyStreamingChunk now m ChunkContent c"
  have content: "getMessageContent ?m = c"
    using Cons.prems tc by (auto simp: getMessageContent_applyStreamingChunk merge_chunk_def)
  have "m_status ?m \<noteq> Some StError" using Cons.prems(1) by (simp add: applyStreamingChunk_status)
  moreover have "snapshot_run (getMessageContent ?m) (map snd chunks)" using Cons.prems(2) tc content by simp
  ultimately have "getMessageContent (apply_chunks ?m chunks) = last (getMessageContent ?m # map snd chunks)"
    by (rule Cons.IH)
  with tc content show ?case by simp
qed

theorem apply_chunks_snapshot_witness:
  "snapshot_run [] [js ''Hel'', js ''Hello''] \<and>
   getMessageContent (apply_chunks (createLoadingAssistantMessage (js ''k'', js ''v'') 0)
     [(1, js ''Hel''), (2, js ''Hello'')]) = js ''Hello''"
proof -
  let ?m = "createLoadingAssistantMessage (js ''k'', js ''v'') 0"
  have m: "m_status ?m \<noteq> Some StError" "getMessageContent ?m = []"
    by (simp_all add: createLoadingAssistantMessage_def getMessageContent_def getCurrentVersion_def
        createMessageVersion_def)
  have d: "snapshot_run [] [js ''Hel'', js ''Hello'']"
    by code_simp
  show ?thesis
    using apply_chunks_snapshot [of ?m "[(1, js ''Hel''), (2, js ''Hello'')]"] m d by simp
qed



section \<open>Completion of a reply\<close>

lemma finalizeMessage_fields [simp]:
  "m_key (finalizeMessage now m api) = m_key m"
  "m_from (finalizeMessage now m api) = m_from m"
  "m_status (finalizeMessage now m api) = m_status m"
  "m_createdAt (finalizeMessage now m api) = m_createdAt m"
  "m_startedAt (finalizeMessage now m api) = m_startedAt m"
  "m_pendingAutoResend (finalizeMessage now m api) = m_pendingAutoResend m"
  "m_isReasoningStreaming (finalizeMessage now m api) = Some False"
  "m_versions (finalizeMessage now m api) \<noteq> []"
  by (simp_all add: finalizeMessage_def Let_def)

lemma getMessageContent_finalizeMessage:
  "getMessageContent (finalizeMessage now m api) =
     (if str_includes (getMessageContent m) THINK_OPEN
      then visibleContent (parseThinkTags (getMessageContent m)) else getMessageContent m)"
  by (simp add: finalizeMessage_def Let_def getMessageContent_def getCurrentVersion_def
      updateCurrentVersionContent_def)

text \<open>The reasoning text of a finalised reply: the API's, else the streamed one, else the tagged one.\<close>

definition final_reasoning :: "message \<Rightarrow> jstr option \<Rightarrow> jstr" where
  "final_reasoning m api =
     or_str (opt_str api) (or_str (opt_str (map_option r_content (m_reasoning m)))
       (if str_includes (getMessageContent m) THINK_OPEN
        then pt_reasoning (parseThinkTags (getMessageContent m)) else []))"

lemma finalizeMessage_reasoning_content:
  "map_option r_content (m_reasoning (finalizeMessage now m api)) =
     (if final_reasoning m api = [] then None else Some (final_reasoning m api))"
proof -
  let ?f = "or_str (opt_str api) (or_str (opt_str (map_option r_content (m_reasoning m)))
     (opt_str (map_option pt_reasoning (if str_includes (getMessageContent m) THINK_OPEN
        then Some (parseThinkTags (getMessageContent m)) else None))))"
  have f: "?f = final_reasoning m api"
    by (simp add: final_reasoning_def)
  show ?thesis
    unfolding f [symmetric]
    by (simp only: finalizeMessage_def Let_def completeReasoningTiming_content)
       (simp add: getMessageContent_def)
qed

lemma finalizeMessage_reasoning_timed:
  "m_reasoning (finalizeMessage now m api) = Some r \<Longrightarrow> r_durationMs r \<noteq> None"
  by (auto simp: finalizeMessage_def completeReasoningTiming_def Let_def split: option.splits if_splits)

lemma completeAssistantMessage_timing:
  assumes "m_from m = RoleAssistant"
  shows "m_completedAt (completeAssistantMessage now m) = Some now"
    and "m_durationMs (completeAssistantMessage now m) =
           Some (max 0 (now - nullish_or (nullish (m_startedAt m) (m_createdAt m)) now))"
  using assms by (simp_all add: completeAssistantMessage_def completeAssistantTiming_def Let_def)

lemma completeAssistantMessage_fields [simp]:
  "m_key (completeAssistantMessage now m) = m_key m"
  "m_from (completeAssistantMessage now m) = m_from m"
  "m_status (completeAssistantMessage now m) = Some StComplete"
  "m_pendingAutoResend (completeAssistantMessage now m) = m_pendingAutoResend m"
  "m_isReasoningStreaming (completeAssistantMessage now m) = Some False"
  "m_versions (completeAssistantMessage now m) \<noteq> []"
  by (simp_all add: completeAssistantMessage_def)

lemma completeAssistantMessage_content:
  "m_from m = RoleAssistant \<Longrightarrow>
     getMessageContent (completeAssistantMessage now m) = getDisplayContent m (getMessageContent m)"
  by (simp add: completeAssistantMessage_def getMessageContent_finalizeMessage getDisplayContent_def)

lemma completeAssistantMessage_reasoning:
  "map_option r_content (m_reasoning (completeAssistantMessage now m)) =
     (if final_reasoning m None = [] then None else Some (final_reasoning m None))"
  "m_reasoning (completeAssistantMessage now m) = Some r \<Longrightarrow> r_durationMs r \<noteq> None"
  by (simp_all add: completeAssistantMessage_def finalizeMessage_reasoning_content finalizeMessage_reasoning_timed)

text \<open>C20. Completing an assistant reply keeps its identity, marks it complete, stamps the
  completion time, records a non-negative duration measured from the recorded start, leaves as
  content exactly the text that was displayed, and keeps the reasoning text with its time closed.\<close>

theorem completeAssistantMessage_spec:
  assumes "m_from m = RoleAssistant"
  shows "m_key (completeAssistantMessage now m) = m_key m \<and>
     m_status (completeAssistantMessage now m) = Some StComplete \<and>
     m_completedAt (completeAssistantMessage now m) = Some now \<and>
     m_durationMs (completeAssistantMessage now m) =
       Some (max 0 (now - nullish_or (nullish (m_startedAt m) (m_createdAt m)) now)) \<and>
     \<not> truthy (m_isReasoningStreaming (completeAssistantMessage now m)) \<and>
     getMessageContent (completeAssistantMessage now m) = getDisplayContent m (getMessageContent m) \<and>
     map_option r_content (m_reasoning (completeAssistantMessage now m)) =
       (if final_reasoning m None = [] then None else Some (final_reasoning m None)) \<and>
     (\<forall>r. m_reasoning (completeAssistantMessage now m) = Some r \<longrightarrow> r_durationMs r \<noteq> None)"
  using completeAssistantMessage_timing [OF assms] completeAssistantMessage_content [OF assms]
    completeAssistantMessage_reasoning
  by simp

theorem completeAssistantMessage_spec_witness:
  "m_durationMs (completeAssistantMessage 5 (createLoadingAssistantMessage (js ''k'', js ''v'') 2)) = Some 3"
proof -
  have "m_from (createLoadingAssistantMessage (js ''k'', js ''v'') 2) = RoleAssistant"
    by (simp add: createLoadingAssistantMessage_def)
  from completeAssistantMessage_spec [OF this, where now = 5] show ?thesis
    by (simp add: createLoadingAssistantMessage_def)
qed

section \<open>Repair of a reloaded conversation\<close>

lemma sanitizeMessagesOnLoad_length [simp]: "length (sanitizeMessagesOnLoad ms) = length ms"
  by (simp add: sanitizeMessagesOnLoad_def split: option.splits)

lemma sanitizeMessagesOnLoad_nth:
  "findLastIndex (\<lambda>m. isPendingAssistantMessage (Some m)) ms = Some i \<Longrightarrow> j < length ms \<Longrightarrow>
     sanitizeMessagesOnLoad ms ! j =
       (if j = i then (ms ! i)\<lparr>m_status := Some StLoading, m_isReasoningStreaming := Some False,
          m_pendingAutoResend := Some True\<rparr> else ms ! j)"
  by (simp add: sanitizeMessagesOnLoad_def)

text \<open>C21. The repair touches one message at most: the last pending assistant reply, which becomes a
  loading reply marked for resending with its text kept. Every other message is unchanged, and a
  conversation without a pending reply is returned as it is.\<close>

theorem sanitizeMessagesOnLoad_spec:
  "if \<forall>m \<in> set ms. \<not> isPendingAssistantMessage (Some m) then sanitizeMessagesOnLoad ms = ms
   else \<exists>i < length ms. isPendingAssistantMessage (Some (ms ! i)) \<and>
     (\<forall>j. i < j \<longrightarrow> j < length ms \<longrightarrow> \<not> isPendingAssistantMessage (Some (ms ! j))) \<and>
     (\<forall>j < length ms. sanitizeMessagesOnLoad ms ! j =
        (if j = i then (ms ! i)\<lparr>m_status := Some StLoading, m_isReasoningStreaming := Some False,
           m_pendingAutoResend := Some True\<rparr> else ms ! j))"
proof (cases "findLastIndex (\<lambda>m. isPendingAssistantMessage (Some m)) ms")
  case None
  then show ?thesis by (simp add: sanitizeMessagesOnLoad_def) (simp add: findLastIndex_None)
next
  case (Some i)
  note i = findLastIndex_SomeD [OF Some]
  then have "\<not> (\<forall>m \<in> set ms. \<not> isPendingAssistantMessage (Some m))" by auto
  with i sanitizeMessagesOnLoad_nth [OF Some] show ?thesis by auto
qed

theorem sanitizeMessagesOnLoad_spec_witness:
  "sanitizeMessagesOnLoad [createLoadingAssistantMessage (js ''k'', js ''v'') 2] ! 0 =
     (createLoadingAssistantMessage (js ''k'', js ''v'') 2)\<lparr>m_pendingAutoResend := Some True\<rparr>"
proof -
  let ?ms = "[createLoadingAssistantMessage (js ''k'', js ''v'') 2]"
  have "isPendingAssistantMessage (Some (createLoadingAssistantMessage (js ''k'', js ''v'') 2))"
    by (simp add: isPendingAssistantMessage_def isAssistantMessagePending_def createLoadingAssistantMessage_def)
  with sanitizeMessagesOnLoad_spec [of ?ms] show ?thesis
    by (simp add: createLoadingAssistantMessage_def)
qed

section \<open>Edits of a conversation\<close>

lemma updateLastAssistantMessage_conv:
  "ms \<noteq> [] \<Longrightarrow> updateLastAssistantMessage ms f =
     butlast ms @ [if m_from (last ms) = RoleAssistant then f (last ms) else last ms]"
  by (cases ms rule: rev_cases) (simp_all add: updateLastAssistantMessage_def)

lemma updateLastAssistantMessage_Nil [simp]: "updateLastAssistantMessage [] f = []"
  by (simp add: updateLastAssistantMessage_def)

lemma updateLastAssistantMessage_length [simp]: "length (updateLastAssistantMessage ms f) = length ms"
  by (simp add: updateLastAssistantMessage_def)

lemma wf_conversation_snoc:
  "wf_conversation (ms @ [m]) \<longleftrightarrow> wf_conversation ms \<and> m_key m \<notin> m_key ` set ms \<and> m_versions m \<noteq> []"
  by (auto simp: wf_conversation_def)

lemma wf_conversation_take: "wf_conversation ms \<Longrightarrow> wf_conversation (take n ms)"
  by (auto simp: wf_conversation_def take_map [symmetric] dest: in_set_takeD)

lemma fresh_take: "k \<notin> m_key ` set ms \<Longrightarrow> k \<notin> m_key ` set (take n ms)"
  using set_take_subset by fastforce

lemma wf_conversation_last_update:
  assumes "wf_conversation ms" and "\<And>m. m_key (f m) = m_key m"
    and "\<And>m. m_versions m \<noteq> [] \<Longrightarrow> m_versions (f m) \<noteq> []"
  shows "wf_conversation (updateLastAssistantMessage ms f)"
proof (cases ms rule: rev_cases)
  case Nil
  with assms(1) show ?thesis by simp
next
  case (snoc xs x)
  with assms show ?thesis by (simp add: updateLastAssistantMessage_conv wf_conversation_snoc)
qed

lemma create_fields [simp]:
  "m_key (createLoadingAssistantMessage ids t) = fst ids" "m_key (createUserMessage ids c t) = fst ids"
  "m_versions (createLoadingAssistantMessage ids t) \<noteq> []" "m_versions (createUserMessage ids c t) \<noteq> []"
  "m_from (createLoadingAssistantMessage ids t) = RoleAssistant" "m_from (createUserMessage ids c t) = RoleUser"
  "m_status (createLoadingAssistantMessage ids t) = Some StLoading" "m_status (createUserMessage ids c t) = None"
  "m_pendingAutoResend (createLoadingAssistantMessage ids t) = None"
  "m_pendingAutoResend (createUserMessage ids c t) = None"
  "getMessageContent (createLoadingAssistantMessage ids t) = []" "getMessageContent (createUserMessage ids c t) = c"
  by (simp_all add: createLoadingAssistantMessage_def createUserMessage_def createMessageVersion_def
      getMessageContent_def getCurrentVersion_def)

lemma appendUserMessagePair_wf:
  assumes "wf_conversation ms" and "fst uids \<notin> m_key ` set ms" and "fst aids \<notin> m_key ` set ms"
    and "fst uids \<noteq> fst aids"
  shows "wf_conversation (appendUserMessagePair now uids aids ms content)"
  using assms by (auto simp: appendUserMessagePair_def wf_conversation_def)

lemma createRegeneratedMessages_wf:
  assumes "wf_conversation ms" and "fst aids \<notin> m_key ` set ms"
    and "createRegeneratedMessages now aids ms key = Some ms'"
  shows "wf_conversation ms'"
  using assms
  by (auto simp: createRegeneratedMessages_def slice_def wf_conversation_snoc wf_conversation_take fresh_take
      split: option.splits if_splits simp del: image_eqI)

lemma removeMessageByKey_wf: "wf_conversation ms \<Longrightarrow> wf_conversation (removeMessageByKey ms key)"
  by (auto simp: removeMessageByKey_def wf_conversation_def distinct_map_filter)

lemma editedMessage_fields [simp]:
  "m_key (editedMessage now key content submit m) = m_key m"
  "m_from (editedMessage now key content submit m) = m_from m"
  "m_versions m \<noteq> [] \<Longrightarrow> m_versions (editedMessage now key content submit m) \<noteq> []"
  by (simp_all add: editedMessage_def)

lemma wf_conversation_map:
  assumes "wf_conversation ms" and "\<And>m. m_key (f m) = m_key m"
    and "\<And>m. m_versions m \<noteq> [] \<Longrightarrow> m_versions (f m) \<noteq> []"
  shows "wf_conversation (map f ms)"
proof -
  have keys: "map m_key (map f ms) = map m_key ms" using assms(2) by simp
  show ?thesis unfolding wf_conversation_def keys using assms(1,3) by (auto simp: wf_conversation_def)
qed

lemma applyMessageEdit_wf:
  assumes "wf_conversation ms" and "fst aids \<notin> m_key ` set ms"
    and "applyMessageEdit now aids ms key content submit = Some r"
  shows "wf_conversation (er_messages r)"
proof -
  let ?u = "map (editedMessage now key content submit) ms"
  have u: "wf_conversation ?u" by (rule wf_conversation_map [OF assms(1)]) auto
  have "m_key ` set ?u = m_key ` set ms" by (auto simp: image_image)
  then have fresh: "fst aids \<notin> m_key ` set ?u" using assms(2) by metis
  have cut: "wf_conversation (take n ?u @ [createLoadingAssistantMessage aids now])" for n
    using wf_conversation_take [OF u] fresh_take [OF fresh] by (simp add: wf_conversation_snoc del: set_map)
  obtain i where "findIndex (\<lambda>m. m_key m = key) ms = Some i"
    using assms(3) by (auto simp: applyMessageEdit_def split: option.splits)
  with assms(3) have "er_messages r = ?u \<or> er_messages r = take (i + 1) ?u @ [createLoadingAssistantMessage aids now]"
    by (auto simp: applyMessageEdit_def Let_def slice_def simp del: map_map split: if_splits)
  with u cut show ?thesis by metis
qed

lemma updateAssistantMessageWithError_wf:
  "wf_conversation ms \<Longrightarrow> wf_conversation (updateAssistantMessageWithError now ms err code title)"
  unfolding updateAssistantMessageWithError_def by (rule wf_conversation_last_update) auto

lemma sanitizeMessagesOnLoad_wf:
  assumes "wf_conversation ms" shows "wf_conversation (sanitizeMessagesOnLoad ms)"
proof (cases "findLastIndex (\<lambda>m. isPendingAssistantMessage (Some m)) ms")
  case None
  with assms(1) show ?thesis by (simp add: sanitizeMessagesOnLoad_def)
next
  case (Some i)
  then have i: "i < length ms" using findLastIndex_SomeD by blast
  have "map m_key (sanitizeMessagesOnLoad ms) = map m_key ms"
    using i by (simp add: sanitizeMessagesOnLoad_def Some map_update list_update_same_conv)
  moreover have "\<forall>m \<in> set (sanitizeMessagesOnLoad ms). m_versions m \<noteq> []"
    using assms(1) i
    by (auto simp: sanitizeMessagesOnLoad_def Some wf_conversation_def dest!: set_update_subset_insert [THEN subsetD])
  ultimately show ?thesis using assms(1) by (simp add: wf_conversation_def)
qed

lemmas conversation_wf =
  appendUserMessagePair_wf createRegeneratedMessages_wf removeMessageByKey_wf applyMessageEdit_wf
  updateAssistantMessageWithError_wf sanitizeMessagesOnLoad_wf

text \<open>C22. Every edit of a conversation keeps it well formed (distinct keys, a version in every
  message) when the identifiers it draws are fresh: sending a message, regenerating a reply,
  deleting a message, editing one, failing or extending the last reply, and the repair on load.\<close>

theorem conversation_edits_wf:
  assumes "wf_conversation ms" and "fst uids \<notin> m_key ` set ms" and "fst aids \<notin> m_key ` set ms"
    and "fst uids \<noteq> fst aids"
  shows "wf_conversation (appendUserMessagePair now uids aids ms content) \<and>
    (\<forall>ms'. createRegeneratedMessages now aids ms key = Some ms' \<longrightarrow> wf_conversation ms') \<and>
    wf_conversation (removeMessageByKey ms key) \<and>
    (\<forall>r. applyMessageEdit now aids ms key content submit = Some r \<longrightarrow> wf_conversation (er_messages r)) \<and>
    wf_conversation (updateAssistantMessageWithError now ms err code title) \<and>
    wf_conversation (updateLastAssistantMessage ms (\<lambda>m. applyStreamingChunk now m ty chunk)) \<and>
    wf_conversation (updateLastAssistantMessage ms (completeAssistantMessage now)) \<and>
    wf_conversation (sanitizeMessagesOnLoad ms)"
proof -
  have "wf_conversation (updateLastAssistantMessage ms (\<lambda>m. applyStreamingChunk now m ty chunk))"
    "wf_conversation (updateLastAssistantMessage ms (completeAssistantMessage now))"
    by (rule wf_conversation_last_update [OF assms(1)]; simp add: applyStreamingChunk_versions)+
  then show ?thesis
    using appendUserMessagePair_wf [OF assms] createRegeneratedMessages_wf [OF assms(1,3)]
      removeMessageByKey_wf [OF assms(1)] applyMessageEdit_wf [OF assms(1,3)]
      updateAssistantMessageWithError_wf [OF assms(1)] sanitizeMessagesOnLoad_wf [OF assms(1)]
    by (intro conjI allI impI) assumption+
qed

theorem conversation_edits_wf_witness:
  "wf_conversation (appendUserMessagePair 1 (js ''u'', js ''v'') (js ''a'', js ''w'') [] (js ''Hi''))"
proof -
  have "wf_conversation []" "fst (js ''u'', js ''v'') \<notin> m_key ` set []"
    "fst (js ''a'', js ''w'') \<notin> m_key ` set []" "fst (js ''u'', js ''v'') \<noteq> fst (js ''a'', js ''w'')"
    by (simp_all add: wf_conversation_def)
  from conversation_edits_wf [OF this] show ?thesis by blast
qed

end
