(* ===== verification/PgStream.thy ===== *)
theory PgStream
  imports Json PgMessage
begin

text \<open>
  The request side of the playground: the configuration and the request payload
  (\<open>lib/streaming/payload-builder.ts\<close>), the reading of stream events and of errors
  (\<open>stream-utils.ts\<close>, \<open>request-error-utils.ts\<close>), the retry decision
  (\<open>lib/auto-resend/auto-resend-utils.ts\<close>), the model and group fallbacks
  (\<open>lib/options\<close>), the parameter controls (\<open>lib/parameters\<close>) and the input controls
  (\<open>lib/input\<close>).

  A server payload is read at its declared type: a field that is not of the declared type is
  read as absent.
\<close>

section \<open>Configuration and request\<close>

record playground_config =
  c_model :: jstr
  c_group :: jstr
  c_temperature :: jsnum
  c_top_p :: jsnum
  c_max_tokens :: jsnum
  c_frequency_penalty :: jsnum
  c_presence_penalty :: jsnum
  c_seed :: "jsnum option"
  c_stream :: bool
  c_autoResendEnabled :: bool
  c_autoResendMaxRetries :: jsnum

record parameter_enabled =
  e_temperature :: bool
  e_top_p :: bool
  e_max_tokens :: bool
  e_frequency_penalty :: bool
  e_presence_penalty :: bool
  e_seed :: bool

definition DEFAULT_GROUP :: jstr where
  "DEFAULT_GROUP = js ''default''"

definition DEFAULT_CONFIG :: playground_config where
  "DEFAULT_CONFIG =
     \<lparr>c_model = js ''gpt-4o'', c_group = DEFAULT_GROUP, c_temperature = 7 / 10, c_top_p = 1,
      c_max_tokens = 4096, c_frequency_penalty = 0, c_presence_penalty = 0, c_seed = None,
      c_stream = True, c_autoResendEnabled = True, c_autoResendMaxRetries = 3\<rparr>"

definition DEFAULT_PARAMETER_ENABLED :: parameter_enabled where
  "DEFAULT_PARAMETER_ENABLED =
     \<lparr>e_temperature = True, e_top_p = True, e_max_tokens = False, e_frequency_penalty = True,
      e_presence_penalty = True, e_seed = False\<rparr>"

record chat_completion_request =
  q_model :: jstr
  q_group :: jstr
  q_messages :: "chat_completion_message list"
  q_stream :: bool
  q_temperature :: "jsnum option"
  q_top_p :: "jsnum option"
  q_max_tokens :: "jsnum option"
  q_frequency_penalty :: "jsnum option"
  q_presence_penalty :: "jsnum option"
  q_seed :: "jsnum option"

definition buildChatCompletionPayload ::
  "message list \<Rightarrow> playground_config \<Rightarrow> parameter_enabled \<Rightarrow> chat_completion_request" where
  "buildChatCompletionPayload messages config parameterEnabled =
     (let processedMessages = map formatMessageForAPI (filter isValidMessage messages);
          payload = \<lparr>q_model = c_model config, q_group = c_group config, q_messages = processedMessages,
            q_stream = c_stream config, q_temperature = None, q_top_p = None, q_max_tokens = None,
            q_frequency_penalty = None, q_presence_penalty = None, q_seed = None\<rparr>;
          payload = (if e_temperature parameterEnabled
            then payload\<lparr>q_temperature := Some (c_temperature config)\<rparr> else payload);
          payload = (if e_top_p parameterEnabled
            then payload\<lparr>q_top_p := Some (c_top_p config)\<rparr> else payload);
          payload = (if e_max_tokens parameterEnabled
            then payload\<lparr>q_max_tokens := Some (c_max_tokens config)\<rparr> else payload);
          payload = (if e_frequency_penalty parameterEnabled
            then payload\<lparr>q_frequency_penalty := Some (c_frequency_penalty config)\<rparr> else payload);
          payload = (if e_presence_penalty parameterEnabled
            then payload\<lparr>q_presence_penalty := Some (c_presence_penalty config)\<rparr> else payload) in
      (if e_seed parameterEnabled \<and> c_seed config \<noteq> None
       then payload\<lparr>q_seed := c_seed config\<rparr> else payload))"

section \<open>Stream events\<close>

record stream_message_update =
  u_type :: stream_chunk_type
  u_chunk :: jstr

record stream_error_details =
  d_errorCode :: "jstr option"
  d_errorMessage :: jstr

definition STREAM_DONE_MESSAGE :: jstr where
  "STREAM_DONE_MESSAGE = js ''[DONE]''"

definition STREAM_CLOSED_READY_STATE :: jsnum where
  "STREAM_CLOSED_READY_STATE = 2"

text \<open>A string field of an optional object, \<open>obj?.field || undefined\<close>, and the element \<open>xs?.[0]\<close>.\<close>

definition json_str_field :: "jstr \<Rightarrow> json \<Rightarrow> jstr option" where
  "json_str_field k v = (case json_get k v of Some (JStr s) \<Rightarrow> (if s = [] then None else Some s) | _ \<Rightarrow> None)"

definition json_first :: "json option \<Rightarrow> json option" where
  "json_first v = (case v of Some (JArr (x # _)) \<Rightarrow> Some x | Some (JObj ps) \<Rightarrow> map_of ps (js ''0'') | _ \<Rightarrow> None)"

definition parseStreamErrorDetails :: "jstr option \<Rightarrow> stream_error_details" where
  "parseStreamErrorDetails data =
     (let fallbackMessage = or_str (opt_str data) API_REQUEST_ERROR in
      if opt_str data = [] then \<lparr>d_errorCode = None, d_errorMessage = fallbackMessage\<rparr>
      else case JSON_parse (opt_str data) of
        None \<Rightarrow> \<lparr>d_errorCode = None, d_errorMessage = fallbackMessage\<rparr>
      | Some parsed \<Rightarrow>
          (case json_get (js ''error'') parsed of
             None \<Rightarrow> \<lparr>d_errorCode = None, d_errorMessage = fallbackMessage\<rparr>
           | Some err \<Rightarrow>
               (if \<not> json_truthy err then \<lparr>d_errorCode = None, d_errorMessage = fallbackMessage\<rparr>
                else \<lparr>d_errorCode = json_str_field (js ''code'') err,
                      d_errorMessage = nullish_or (json_str_field (js ''message'') err) fallbackMessage\<rparr>)))"

text \<open>\<open>None\<close> is an exception: a text that is not JSON, or \<open>null\<close>, whose property read throws.\<close>

definition parseStreamMessageUpdates :: "jstr \<Rightarrow> stream_message_update list option" where
  "parseStreamMessageUpdates data =
     (case JSON_parse data of
        None \<Rightarrow> None
      | Some chunk \<Rightarrow>
          (if chunk = JNull then None
           else case Option.bind (json_first (json_get (js ''choices'') chunk)) (json_get (js ''delta'')) of
             None \<Rightarrow> Some []
           | Some delta \<Rightarrow>
               (if \<not> json_truthy delta then Some []
                else Some
                  ((case json_str_field (js ''reasoning_content'') delta of
                      None \<Rightarrow> [] | Some c \<Rightarrow> [\<lparr>u_type = ChunkReasoning, u_chunk = c\<rparr>]) @
                   (case json_str_field (js ''content'') delta of
                      None \<Rightarrow> [] | Some c \<Rightarrow> [\<lparr>u_type = ChunkContent, u_chunk = c\<rparr>])))))"

definition isStreamDoneMessage :: "jstr \<Rightarrow> bool" where
  "isStreamDoneMessage data \<longleftrightarrow> data = STREAM_DONE_MESSAGE"

definition isStreamClosedReadyState :: "jsnum option \<Rightarrow> bool" where
  "isStreamClosedReadyState readyState \<longleftrightarrow> readyState = Some STREAM_CLOSED_READY_STATE"

definition getStreamReadyStateError :: "jsnum option \<Rightarrow> jsnum option \<Rightarrow> jstr option" where
  "getStreamReadyStateError eventReadyState status =
     (case (eventReadyState, status) of
        (Some r, Some st) \<Rightarrow>
          (if r \<ge> STREAM_CLOSED_READY_STATE \<and> st \<noteq> 200
           then Some (js ''HTTP '' @ Number_toString st @ js '': '' @ CONNECTION_CLOSED) else None)
      | _ \<Rightarrow> None)"

record request_error_like =
  re_message :: "jstr option"
  re_data_message :: "jstr option"
  re_data_code :: "jstr option"

definition parseRequestErrorDetails :: "request_error_like option \<Rightarrow> stream_error_details" where
  "parseRequestErrorDetails e =
     \<lparr>d_errorCode = (case Option.bind e re_data_code of Some c \<Rightarrow> (if c = [] then None else Some c) | None \<Rightarrow> None),
      d_errorMessage =
        or_str (opt_str (Option.bind e re_data_message))
          (or_str (opt_str (Option.bind e re_message)) API_REQUEST_ERROR)\<rparr>"

section \<open>Auto-resend\<close>

definition BASE_DELAY_MS :: jsnum where
  "BASE_DELAY_MS = 1000"

definition MAX_RETRIES_LIMIT :: jsnum where
  "MAX_RETRIES_LIMIT = 5"

definition computeBackoffDelay :: "int \<Rightarrow> jsnum" where
  "computeBackoffDelay retryCount = BASE_DELAY_MS * 2 powi retryCount"

record auto_resend_input =
  a_isAutoResendMode :: bool
  a_autoResendEnabled :: bool
  a_retryCount :: int
  a_maxRetries :: jsnum

record auto_resend_result =
  shouldRetry :: bool
  delayMs :: jsnum

definition decideAutoResend :: "auto_resend_input \<Rightarrow> auto_resend_result" where
  "decideAutoResend inp =
     (if \<not> a_isAutoResendMode inp \<or> \<not> a_autoResendEnabled inp \<or> of_int (a_retryCount inp) \<ge> a_maxRetries inp
      then \<lparr>shouldRetry = False, delayMs = 0\<rparr>
      else \<lparr>shouldRetry = True, delayMs = computeBackoffDelay (a_retryCount inp)\<rparr>)"

definition hasPendingAutoResend :: "message list \<Rightarrow> bool" where
  "hasPendingAutoResend messages =
     (messages \<noteq> [] \<and> m_from (last messages) = RoleAssistant \<and> truthy (m_pendingAutoResend (last messages)))"

definition resetPendingMessageForRetry :: "jstr \<Rightarrow> message \<Rightarrow> message" where
  "resetPendingMessageForRetry nid m =
     (if \<not> truthy (m_pendingAutoResend m) then m
      else \<lparr>m_key = m_key m, m_from = m_from m, m_versions = [\<lparr>v_id = nid, v_content = []\<rparr>],
            m_createdAt = m_createdAt m, m_startedAt = None, m_completedAt = None, m_durationMs = None,
            m_sources = None, m_reasoning = None, m_isReasoningStreaming = Some False,
            m_isReasoningComplete = Some False, m_isContentComplete = Some False,
            m_status = Some StLoading, m_errorCode = None, m_pendingAutoResend = Some True\<rparr>)"

section \<open>Options\<close>

record model_option =
  mo_label :: jstr
  mo_value :: jstr

record group_option =
  go_label :: jstr
  go_value :: jstr
  go_ratio :: jsnum
  go_desc :: "jstr option"

definition getModelFallback :: "model_option list \<Rightarrow> jstr \<Rightarrow> jstr option" where
  "getModelFallback models currentModel =
     (if (\<exists>model\<in>set models. mo_value model = currentModel) \<or> models = [] then None
      else Some (mo_value (hd models)))"

definition shouldClearModelForGroup :: "model_option list \<Rightarrow> jstr \<Rightarrow> bool" where
  "shouldClearModelForGroup models currentModel =
     (if currentModel = [] then False else \<not> (\<exists>model\<in>set models. mo_value model = currentModel))"

definition getGroupFallback :: "group_option list \<Rightarrow> jstr \<Rightarrow> jstr option" where
  "getGroupFallback groups currentGroup =
     (if (\<exists>group\<in>set groups. go_value group = currentGroup) \<or> groups = [] then None
      else case List.find (\<lambda>group. go_value group = js ''default'') groups of
        Some g \<Rightarrow> Some (go_value g)
      | None \<Rightarrow> Some (go_value (hd groups)))"

text \<open>An \<open>Error\<close> carries its message; any other thrown value does not.\<close>

definition getOptionLoadErrorMessage :: "jstr option \<Rightarrow> jstr \<Rightarrow> jstr" where
  "getOptionLoadErrorMessage error_message fallbackMessage = nullish_or error_message fallbackMessage"

section \<open>Parameter controls\<close>

datatype parameter_key = Temperature | Top_p | Frequency_penalty | Presence_penalty | Max_tokens | Seed

datatype value_type = Slider | Number

record parameter_control =
  pc_key :: parameter_key
  pc_labelKey :: jstr
  pc_descriptionKey :: jstr
  pc_valueType :: value_type
  pc_min :: jsnum
  pc_max :: jsnum
  pc_step :: jsnum

definition PLAYGROUND_PARAMETER_CONTROLS :: "parameter_control list" where
  "PLAYGROUND_PARAMETER_CONTROLS =
    [\<lparr>pc_key = Temperature, pc_labelKey = js ''Temperature'',
      pc_descriptionKey = js ''Controls randomness and creativity'',
      pc_valueType = Slider, pc_min = 1 / 10, pc_max = 1, pc_step = 1 / 10\<rparr>,
     \<lparr>pc_key = Top_p, pc_labelKey = js ''Top P'',
      pc_descriptionKey = js ''Limits token selection to a probability mass'',
      pc_valueType = Slider, pc_min = 1 / 10, pc_max = 1, pc_step = 1 / 10\<rparr>,
     \<lparr>pc_key = Frequency_penalty, pc_labelKey = js ''Frequency Penalty'',
      pc_descriptionKey = js ''Reduces repeated wording'',
      pc_valueType = Slider, pc_min = - 2, pc_max = 2, pc_step = 1 / 10\<rparr>,
     \<lparr>pc_key = Presence_penalty, pc_labelKey = js ''Presence Penalty'',
      pc_descriptionKey = js ''Encourages new topics'',
      pc_valueType = Slider, pc_min = - 2, pc_max = 2, pc_step = 1 / 10\<rparr>,
     \<lparr>pc_key = Max_tokens, pc_labelKey = js ''Max Tokens'',
      pc_descriptionKey = js ''Caps the response length'',
      pc_valueType = Number, pc_min = 0, pc_max = 200000, pc_step = 1\<rparr>,
     \<lparr>pc_key = Seed, pc_labelKey = js ''Seed'',
      pc_descriptionKey = js ''Keeps compatible responses more repeatable'',
      pc_valueType = Number, pc_min = 0, pc_max = 2147483647, pc_step = 1\<rparr>]"

text \<open>\<open>Number.parseFloat\<close>: the longest decimal literal after leading white space.\<close>

definition parseFloat_unsigned :: "jstr \<Rightarrow> jnumber" where
  "parseFloat_unsigned s =
     (let ip = takeWhile is_digit s; r1 = dropWhile is_digit s;
          fp = (case r1 of [] \<Rightarrow> [] | c # cs \<Rightarrow> (if c = 46 then takeWhile is_digit cs else []));
          r2 = (case r1 of [] \<Rightarrow> [] | c # cs \<Rightarrow> (if c = 46 then dropWhile is_digit cs else r1)) in
      if startsWith s (js ''Infinity'') then PosInf
      else if ip = [] \<and> fp = [] then NaN
      else (let e = (case parse_exponent r2 of None \<Rightarrow> 0 | Some (e, _) \<Rightarrow> e) in
        Fin (scale10 (of_nat (digits_val ip 0) + of_nat (digits_val fp 0) / 10 ^ length fp) e)))"

fun negate_number :: "jnumber \<Rightarrow> jnumber" where
  "negate_number (Fin x) = Fin (- x)"
| "negate_number PosInf = NegInf"
| "negate_number NegInf = PosInf"
| "negate_number NaN = NaN"

definition parseFloat :: "jstr \<Rightarrow> jnumber" where
  "parseFloat s =
     (case dropWhile is_ws s of
        [] \<Rightarrow> NaN
      | c # cs \<Rightarrow>
          (if c = 45 then negate_number (parseFloat_unsigned cs)
           else if c = 43 then parseFloat_unsigned cs
           else parseFloat_unsigned (c # cs)))"

datatype parameter_input = InText jstr | InNumber jnumber

text \<open>\<open>Math.min(hi, Math.max(lo, x))\<close> of a number that is not \<open>NaN\<close>.\<close>

fun clamp :: "jsnum \<Rightarrow> jsnum \<Rightarrow> jnumber \<Rightarrow> jsnum" where
  "clamp lo hi (Fin x) = min hi (max lo x)"
| "clamp lo hi PosInf = hi"
| "clamp lo hi NegInf = min hi lo"
| "clamp lo hi NaN = lo"

definition Math_trunc :: "jsnum \<Rightarrow> jsnum" where
  "Math_trunc x = (if x < 0 then of_int \<lceil>x\<rceil> else of_int \<lfloor>x\<rfloor>)"

text \<open>\<open>Number(x.toFixed(p))\<close>: the nearest multiple of \<open>10^-p\<close>, ties away from zero.\<close>

definition to_fixed :: "nat \<Rightarrow> jsnum \<Rightarrow> jsnum" where
  "to_fixed p x =
     (if x < 0 then - (of_int \<lfloor>- x * 10 ^ p + 1 / 2\<rfloor> / 10 ^ p)
      else of_int \<lfloor>x * 10 ^ p + 1 / 2\<rfloor> / 10 ^ p)"

definition step_precision :: "jsnum \<Rightarrow> nat" where
  "step_precision step = (case split_on 46 (Number_toString step) of _ # decimals # _ \<Rightarrow> length decimals | _ \<Rightarrow> 0)"

definition normalizeParameterNumberValue :: "parameter_key \<Rightarrow> parameter_input \<Rightarrow> jsnum option" where
  "normalizeParameterNumberValue key value =
     (let nothing = (if key = Seed then None else Some 0) in
      if value = InText [] then nothing
      else
        (let control = List.find (\<lambda>item. pc_key item = key) PLAYGROUND_PARAMETER_CONTROLS;
             parsed = (case value of InNumber n \<Rightarrow> n | InText s \<Rightarrow> parseFloat s) in
         case control of
           None \<Rightarrow> nothing
         | Some control \<Rightarrow>
             (if parsed = NaN then nothing
              else
                (let clamped = clamp (pc_min control) (pc_max control) parsed in
                 if pc_step control \<ge> 1 then Some (Math_trunc clamped)
                 else Some (to_fixed (step_precision (pc_step control)) clamped)))))"

datatype parameter_value = PvNull | PvNum jsnum | PvStr jstr | PvBool bool

definition getParameterControlValueText :: "parameter_key \<Rightarrow> parameter_value \<Rightarrow> jstr" where
  "getParameterControlValueText key value =
     (if key = Seed \<and> value = PvNull then js ''Not set''
      else case value of
        PvNull \<Rightarrow> js ''null''
      | PvNum x \<Rightarrow> Number_toString x
      | PvStr s \<Rightarrow> s
      | PvBool b \<Rightarrow> (if b then js ''true'' else js ''false''))"

section \<open>Input controls\<close>

definition getSubmittableInputText :: "jstr option \<Rightarrow> bool \<Rightarrow> jstr option" where
  "getSubmittableInputText input disabled =
     (if disabled \<or> trim (opt_str input) = [] then None else input)"

record input_control_state =
  canSubmit :: bool
  isSelectorDisabled :: bool
  shouldShowStop :: bool

definition getInputControlState ::
  "bool \<Rightarrow> group_option list \<Rightarrow> bool \<Rightarrow> bool \<Rightarrow> bool \<Rightarrow> model_option list \<Rightarrow> jstr \<Rightarrow> input_control_state" where
  "getInputControlState disabled groups hasStopHandler isGenerating isModelLoading models input =
     \<lparr>canSubmit = (\<not> disabled \<and> models \<noteq> [] \<and> length (trim input) > 0),
      isSelectorDisabled = (disabled \<or> isModelLoading \<or> groups = []),
      shouldShowStop = (isGenerating \<and> hasStopHandler)\<rparr>"

section \<open>What a server sends\<close>

text \<open>The JSON of a content event and of an error event, as the server writes them.\<close>

definition delta_event :: "jstr \<Rightarrow> jstr \<Rightarrow> json" where
  "delta_event reasoning content =
     JObj [(js ''id'', JStr (js ''chatcmpl'')),
           (js ''choices'', JArr [JObj [(js ''index'', JNum 0),
             (js ''delta'', JObj [(js ''reasoning_content'', JStr reasoning), (js ''content'', JStr content)]),
             (js ''finish_reason'', JNull)]])]"

definition error_event :: "jstr \<Rightarrow> jstr \<Rightarrow> json" where
  "error_event code message =
     JObj [(js ''error'', JObj [(js ''code'', JStr code), (js ''message'', JStr message)])]"

lemma plain_zero: "plain_number 0"
  by (simp add: plain_number_def positional_def)

lemma serialisable_delta_event:
  "code_units r \<Longrightarrow> code_units c \<Longrightarrow> serialisable (delta_event r c)"
  using code_units_js by (simp add: delta_event_def plain_zero code_units_def [symmetric] js_inject)

lemma serialisable_error_event:
  "code_units code \<Longrightarrow> code_units msg \<Longrightarrow> serialisable (error_event code msg)"
  by (simp add: error_event_def code_units_def [symmetric] js_inject)




section \<open>Retries\<close>

text \<open>The delays of the retries when every attempt fails.\<close>

function retry_delays :: "jsnum \<Rightarrow> nat \<Rightarrow> jsnum list" where
  "retry_delays maxRetries retryCount =
     (let d = decideAutoResend \<lparr>a_isAutoResendMode = True, a_autoResendEnabled = True,
                a_retryCount = int retryCount, a_maxRetries = maxRetries\<rparr> in
      if shouldRetry d then delayMs d # retry_delays maxRetries (Suc retryCount) else [])"
  by pat_completeness auto
termination
proof (relation "measure (\<lambda>(m, k). nat \<lceil>m\<rceil> - k)", goal_cases)
  case (2 m k)
  then have "of_nat k < m" by (simp add: decideAutoResend_def split: if_splits)
  then have "int k < \<lceil>m\<rceil>" by (simp add: less_ceiling_iff)
  then show ?case by simp
qed simp

declare retry_delays.simps [simp del]

lemma retry_delays_step:
  "retry_delays m k = (if of_nat k \<ge> m then [] else computeBackoffDelay (int k) # retry_delays m (Suc k))"
  by (subst retry_delays.simps) (simp add: decideAutoResend_def)

lemma retry_delays_from:
  "retry_delays m k = map (\<lambda>i. computeBackoffDelay (int i)) [k..<nat \<lceil>m\<rceil>]"
proof (induction m k rule: retry_delays.induct)
  case (1 m k)
  show ?case
  proof (cases "of_nat k \<ge> m")
    case True
    then have "\<lceil>m\<rceil> \<le> int k" by (simp add: ceiling_le_iff)
    then have "nat \<lceil>m\<rceil> \<le> k" by linarith
    with True show ?thesis by (simp add: retry_delays_step)
  next
    case False
    then have "int k < \<lceil>m\<rceil>" by (simp add: less_ceiling_iff)
    then have "k < nat \<lceil>m\<rceil>" by linarith
    moreover have "retry_delays m (Suc k) = map (\<lambda>i. computeBackoffDelay (int i)) [Suc k..<nat \<lceil>m\<rceil>]"
      by (rule 1 [OF refl]) (use False in \<open>simp add: decideAutoResend_def\<close>)
    ultimately show ?thesis using False by (simp add: retry_delays_step upt_conv_Cons)
  qed
qed

lemma backoff_sum: "sum_list (map (\<lambda>i. computeBackoffDelay (int i)) [0..<n]) = 1000 * (2 ^ n - 1)"
  by (induction n) (simp_all add: computeBackoffDelay_def BASE_DELAY_MS_def algebra_simps)

text \<open>C10. When every attempt fails, the retries stop after exactly as many attempts as the
  configured maximum (rounded up), each waits twice as long as the one before it, starting at one
  second, and the waiting time is bounded by the closed form; outside the auto-resend mode, or with
  the feature off, nothing is retried.\<close>

theorem retries_bounded:
  "length (retry_delays m 0) = nat \<lceil>m\<rceil>
   \<and> (\<forall>i < nat \<lceil>m\<rceil>. retry_delays m 0 ! i = 1000 * 2 ^ i)
   \<and> sum_list (retry_delays m 0) = 1000 * (2 ^ nat \<lceil>m\<rceil> - 1)
   \<and> (\<not> a_isAutoResendMode inp \<or> \<not> a_autoResendEnabled inp \<longrightarrow> \<not> shouldRetry (decideAutoResend inp))"
proof (intro conjI)
  show "sum_list (retry_delays m 0) = 1000 * (2 ^ nat \<lceil>m\<rceil> - 1)"
    unfolding retry_delays_from by (rule backoff_sum)
qed (simp_all add: retry_delays_from computeBackoffDelay_def BASE_DELAY_MS_def decideAutoResend_def)

theorem retries_bounded_witness:
  "length (retry_delays 3 0) = 3 \<and> sum_list (retry_delays 3 0) = 7000"
  using retries_bounded [of 3 "\<lparr>a_isAutoResendMode = False, a_autoResendEnabled = True, a_retryCount = 0, a_maxRetries = 3\<rparr>"]
  by simp

section \<open>The payload\<close>

lemma payload_messages [simp]:
  "q_messages (buildChatCompletionPayload ms cfg pe) = map formatMessageForAPI (filter isValidMessage ms)"
  by (simp add: buildChatCompletionPayload_def Let_def)

lemma payload_fields:
  "q_model (buildChatCompletionPayload ms cfg pe) = c_model cfg"
  "q_group (buildChatCompletionPayload ms cfg pe) = c_group cfg"
  "q_stream (buildChatCompletionPayload ms cfg pe) = c_stream cfg"
  "q_temperature (buildChatCompletionPayload ms cfg pe) = (if e_temperature pe then Some (c_temperature cfg) else None)"
  "q_top_p (buildChatCompletionPayload ms cfg pe) = (if e_top_p pe then Some (c_top_p cfg) else None)"
  "q_max_tokens (buildChatCompletionPayload ms cfg pe) = (if e_max_tokens pe then Some (c_max_tokens cfg) else None)"
  "q_frequency_penalty (buildChatCompletionPayload ms cfg pe) = (if e_frequency_penalty pe then Some (c_frequency_penalty cfg) else None)"
  "q_presence_penalty (buildChatCompletionPayload ms cfg pe) = (if e_presence_penalty pe then Some (c_presence_penalty cfg) else None)"
  "q_seed (buildChatCompletionPayload ms cfg pe) = (if e_seed pe then c_seed cfg else None)"
  by (simp_all add: buildChatCompletionPayload_def Let_def)

lemma turn_messages [simp]:
  "isValidMessage (createUserMessage uids content now)"
  "\<not> isValidMessage (createLoadingAssistantMessage aids now)"
  "formatMessageForAPI (createUserMessage uids content now) = \<lparr>c_role = RoleUser, c_content = TextContent content\<rparr>"
  by (simp_all add: isValidMessage_def createUserMessage_def createLoadingAssistantMessage_def
      formatMessageForAPI_def getCurrentVersion_def createMessageVersion_def hasMessageContent_def
      getMessageContent_def trim_eq_Nil)

text \<open>C23. The request of a turn is the history and the new user text: the placeholder of the reply
  is not sent, the empty replies of the history are dropped, and a sampling parameter is sent exactly
  when it is enabled (the seed only when it is set as well).\<close>

theorem payload_of_turn:
  "q_messages (buildChatCompletionPayload (appendUserMessagePair now uids aids ms content) cfg pe) =
     q_messages (buildChatCompletionPayload ms cfg pe) @ [\<lparr>c_role = RoleUser, c_content = TextContent content\<rparr>]
   \<and> (q_temperature (buildChatCompletionPayload ms cfg pe) \<noteq> None) = e_temperature pe
   \<and> (q_top_p (buildChatCompletionPayload ms cfg pe) \<noteq> None) = e_top_p pe
   \<and> (q_max_tokens (buildChatCompletionPayload ms cfg pe) \<noteq> None) = e_max_tokens pe
   \<and> (q_frequency_penalty (buildChatCompletionPayload ms cfg pe) \<noteq> None) = e_frequency_penalty pe
   \<and> (q_presence_penalty (buildChatCompletionPayload ms cfg pe) \<noteq> None) = e_presence_penalty pe
   \<and> q_seed (buildChatCompletionPayload ms cfg pe) = (if e_seed pe then c_seed cfg else None)
   \<and> length (q_messages (buildChatCompletionPayload ms cfg pe)) =
       length (filter (\<lambda>m. m_versions m \<noteq> [] \<and> (if m_from m = RoleAssistant then hasMessageContent m else True)) ms)"
proof -
  have "isValidMessage = (\<lambda>m. m_versions m \<noteq> [] \<and> (if m_from m = RoleAssistant then hasMessageContent m else True))"
    by (rule ext) (simp add: isValidMessage_def)
  then have "length (filter isValidMessage ms) =
      length (filter (\<lambda>m. m_versions m \<noteq> [] \<and> (if m_from m = RoleAssistant then hasMessageContent m else True)) ms)"
    by simp
  then show ?thesis by (simp add: payload_fields appendUserMessagePair_def turn_messages)
qed

text \<open>C24. A reply that failed is history like any other: the text of its error message is sent to
  the model as an assistant turn of the next request.\<close>

theorem error_text_is_sent:
  assumes "m_from m = RoleAssistant"
  shows "q_messages (buildChatCompletionPayload
      (appendUserMessagePair now uids aids
        (updateAssistantMessageWithError t (ms @ [m]) err code title) content) cfg pe) =
    q_messages (buildChatCompletionPayload ms cfg pe) @
      [\<lparr>c_role = RoleAssistant, c_content = TextContent (title @ js '': '' @ err)\<rparr>,
       \<lparr>c_role = RoleUser, c_content = TextContent content\<rparr>]"
proof -
  let ?f = "\<lambda>m. completeAssistantTiming ((updateCurrentVersionContent m (title @ js '': '' @ err))
      \<lparr>m_status := Some StError, m_isReasoningStreaming := Some False,
       m_errorCode := Some (if opt_str code = [] then None else code)\<rparr>) t"
  have "\<exists>c\<in>set (title @ js '': '' @ err). \<not> is_ws c"
    by (auto simp: js_def is_ws_def)
  then have "trim (title @ js '': '' @ err) \<noteq> []" by (auto simp: trim_eq_Nil)
  then have "isValidMessage (?f m)"
    "formatMessageForAPI (?f m) = \<lparr>c_role = RoleAssistant, c_content = TextContent (title @ js '': '' @ err)\<rparr>"
    using assms
    by (simp_all add: formatMessageForAPI_def isValidMessage_def hasMessageContent_def
        getMessageContent_def updateCurrentVersionContent_def getCurrentVersion_def)
  moreover have "updateAssistantMessageWithError t (ms @ [m]) err code title = ms @ [?f m]"
    using assms by (simp add: updateAssistantMessageWithError_def updateLastAssistantMessage_conv)
  ultimately show ?thesis by (simp add: appendUserMessagePair_def)
qed

theorem error_text_is_sent_witness:
  "q_messages (buildChatCompletionPayload
      (appendUserMessagePair 2 (js ''c'', js ''d'') (js ''e'', js ''f'')
        (updateAssistantMessageWithError 1 ([] @ [createLoadingAssistantMessage (js ''a'', js ''b'') 0])
          (js ''boom'') None API_REQUEST_ERROR) (js ''hi'')) DEFAULT_CONFIG DEFAULT_PARAMETER_ENABLED) =
    [\<lparr>c_role = RoleAssistant, c_content = TextContent (js ''Request error occurred: boom'')\<rparr>,
     \<lparr>c_role = RoleUser, c_content = TextContent (js ''hi'')\<rparr>]"
  by (subst error_text_is_sent) (simp_all add: createLoadingAssistantMessage_def API_REQUEST_ERROR_def js_append [symmetric] del: js_append)

section \<open>Parameter values\<close>

lemma to_fixed_bounds:
  assumes "of_int a / 10 ^ p \<le> x" "x \<le> of_int b / 10 ^ p"
  shows "of_int a / 10 ^ p \<le> to_fixed p x \<and> to_fixed p x \<le> of_int b / 10 ^ p"
proof -
  have "\<exists>k. to_fixed p x = of_int k / 10 ^ p \<and> a \<le> k \<and> k \<le> b"
  proof (cases "x < 0")
    case True
    let ?k = "- \<lfloor>- x * 10 ^ p + 1 / 2\<rfloor>"
    have ab: "of_int a \<le> x * 10 ^ p" "x * 10 ^ p \<le> of_int b" using assms by (simp_all add: field_simps)
    have "of_int (- ?k) \<le> - x * 10 ^ p + 1 / 2" "- x * 10 ^ p + 1 / 2 < of_int (- ?k) + 1" by linarith+
    with ab have "of_int a < (of_int ?k + 1 :: rat)" "of_int ?k < (of_int b + 1 :: rat)" by linarith+
    then have "a \<le> ?k" "?k \<le> b" by linarith+
    moreover have "to_fixed p x = of_int ?k / 10 ^ p" using True by (simp add: to_fixed_def)
    ultimately show ?thesis by blast
  next
    case False
    let ?k = "\<lfloor>x * 10 ^ p + 1 / 2\<rfloor>"
    have ab: "of_int a \<le> x * 10 ^ p" "x * 10 ^ p \<le> of_int b" using assms by (simp_all add: field_simps)
    have "of_int ?k \<le> x * 10 ^ p + 1 / 2" "x * 10 ^ p + 1 / 2 < of_int ?k + 1" by linarith+
    with ab have "of_int a < (of_int ?k + 1 :: rat)" "of_int ?k < (of_int b + 1 :: rat)" by linarith+
    then have "a \<le> ?k" "?k \<le> b" by linarith+
    moreover have "to_fixed p x = of_int ?k / 10 ^ p" using False by (simp add: to_fixed_def)
    ultimately show ?thesis by blast
  qed
  then show ?thesis by (auto simp: divide_right_mono)
qed

lemma to_fixed_idem: "to_fixed p (to_fixed p x) = to_fixed p x"
proof -
  have "\<exists>k. to_fixed p x = of_int k / 10 ^ p"
  proof (cases "x < 0")
    case True
    then have "to_fixed p x = of_int (- \<lfloor>- x * 10 ^ p + 1 / 2\<rfloor>) / 10 ^ p" by (simp add: to_fixed_def)
    then show ?thesis by blast
  qed (auto simp: to_fixed_def)
  then obtain k where k: "to_fixed p x = of_int k / 10 ^ p" by blast
  have f: "\<lfloor>of_int j + 1 / 2 :: rat\<rfloor> = j" for j by linarith
  have "to_fixed p (of_int k / 10 ^ p) = of_int k / 10 ^ p"
    using f [of "- k"] f [of k] by (simp add: to_fixed_def)
  then show ?thesis by (simp add: k)
qed

lemma Math_trunc_bounds:
  "of_int a \<le> x \<Longrightarrow> x \<le> of_int b \<Longrightarrow> of_int a \<le> Math_trunc x \<and> Math_trunc x \<le> of_int b"
  by (auto simp: Math_trunc_def le_floor_iff ceiling_le_iff) linarith+

lemma Math_trunc_idem: "Math_trunc (Math_trunc x) = Math_trunc x"
  by (simp add: Math_trunc_def)

lemma step_precision_tenth: "step_precision (1 / 10) = 1"
  by code_simp

definition control_of :: "parameter_key \<Rightarrow> parameter_control" where
  "control_of key = (case List.find (\<lambda>item. pc_key item = key) PLAYGROUND_PARAMETER_CONTROLS of
     Some c \<Rightarrow> c | None \<Rightarrow> hd PLAYGROUND_PARAMETER_CONTROLS)"

definition parameter_number :: "parameter_input \<Rightarrow> jnumber" where
  "parameter_number value = (case value of InNumber n \<Rightarrow> n | InText s \<Rightarrow> parseFloat s)"

lemma control_of_found:
  "List.find (\<lambda>item. pc_key item = key) PLAYGROUND_PARAMETER_CONTROLS = Some (control_of key)"
  by (cases key) (simp_all add: control_of_def PLAYGROUND_PARAMETER_CONTROLS_def)

text \<open>Every control is either a slider with one decimal or an integer field, and its bounds are
  multiples of its step.\<close>

lemma control_shape:
  obtains a b where "pc_min (control_of key) = of_int a" "pc_max (control_of key) = of_int b" "a \<le> b"
      "pc_step (control_of key) = 1"
  | a b where "pc_min (control_of key) = of_int a / 10 ^ 1" "pc_max (control_of key) = of_int b / 10 ^ 1" "a \<le> b"
      "pc_step (control_of key) = 1 / 10"
proof (cases key)
  case Max_tokens
  then show ?thesis by (intro that(1) [of 0 200000]) (simp_all add: control_of_def PLAYGROUND_PARAMETER_CONTROLS_def)
next
  case Seed
  then show ?thesis by (intro that(1) [of 0 2147483647]) (simp_all add: control_of_def PLAYGROUND_PARAMETER_CONTROLS_def)
next
  case Temperature
  then show ?thesis by (intro that(2) [of 1 10]) (simp_all add: control_of_def PLAYGROUND_PARAMETER_CONTROLS_def)
next
  case Top_p
  then show ?thesis by (intro that(2) [of 1 10]) (simp_all add: control_of_def PLAYGROUND_PARAMETER_CONTROLS_def)
next
  case Frequency_penalty
  then show ?thesis by (intro that(2) [of "-20" 20]) (simp_all add: control_of_def PLAYGROUND_PARAMETER_CONTROLS_def)
next
  case Presence_penalty
  then show ?thesis by (intro that(2) [of "-20" 20]) (simp_all add: control_of_def PLAYGROUND_PARAMETER_CONTROLS_def)
qed

definition round_to_step :: "parameter_key \<Rightarrow> jsnum \<Rightarrow> jsnum" where
  "round_to_step key x = (if pc_step (control_of key) \<ge> 1 then Math_trunc x
     else to_fixed (step_precision (pc_step (control_of key))) x)"

lemma normalize_conv:
  "value \<noteq> InText [] \<Longrightarrow> parameter_number value \<noteq> NaN \<Longrightarrow>
   normalizeParameterNumberValue key value =
     Some (round_to_step key (clamp (pc_min (control_of key)) (pc_max (control_of key)) (parameter_number value)))"
  by (simp add: normalizeParameterNumberValue_def control_of_found Let_def round_to_step_def
      parameter_number_def split: parameter_input.splits)

lemma clamp_bounds: "lo \<le> hi \<Longrightarrow> lo \<le> clamp lo hi x \<and> clamp lo hi x \<le> hi"
  by (cases x) auto

lemma round_to_step_bounds:
  assumes "pc_min (control_of key) \<le> x" "x \<le> pc_max (control_of key)"
  shows "pc_min (control_of key) \<le> round_to_step key x \<and> round_to_step key x \<le> pc_max (control_of key)"
proof (rule control_shape [of key])
  fix a b
  assume "pc_min (control_of key) = of_int a" "pc_max (control_of key) = of_int b" "pc_step (control_of key) = 1"
  then show ?thesis using assms Math_trunc_bounds [of a x b] by (simp add: round_to_step_def)
next
  fix a b
  assume c: "pc_min (control_of key) = of_int a / 10 ^ 1" "pc_max (control_of key) = of_int b / 10 ^ 1"
    "pc_step (control_of key) = 1 / 10"
  then have "round_to_step key x = to_fixed 1 x" unfolding round_to_step_def c(3) step_precision_tenth by simp
  with c(1,2) assms to_fixed_bounds [of a 1 x b] show ?thesis by (simp only:)
qed

lemma round_to_step_idem: "round_to_step key (round_to_step key x) = round_to_step key x"
  by (simp add: round_to_step_def Math_trunc_idem to_fixed_idem)

lemma control_range: "pc_min (control_of key) \<le> pc_max (control_of key)"
  by (rule control_shape [of key]) (simp_all add: divide_right_mono)



section \<open>Fallbacks\<close>

text \<open>C26. The model and the group of the configuration never stay outside the offered options: a
  fallback is proposed exactly when the current choice is not offered and something is, it is itself
  on offer, and no further fallback follows it; the group prefers the default group.\<close>

theorem fallback_settles:
  "(getModelFallback models cur = None \<longleftrightarrow> models = [] \<or> cur \<in> mo_value ` set models)
   \<and> (\<forall>f. getModelFallback models cur = Some f \<longrightarrow> f \<in> mo_value ` set models \<and> getModelFallback models f = None)
   \<and> (getGroupFallback groups curg = None \<longleftrightarrow> groups = [] \<or> curg \<in> go_value ` set groups)
   \<and> (\<forall>f. getGroupFallback groups curg = Some f \<longrightarrow> f \<in> go_value ` set groups \<and> getGroupFallback groups f = None
        \<and> (js ''default'' \<in> go_value ` set groups \<longrightarrow> f = js ''default''))"
proof -
  have G: "f \<in> go_value ` set groups \<and> (js ''default'' \<in> go_value ` set groups \<longrightarrow> f = js ''default'')"
    if "getGroupFallback groups curg = Some f" for f
    using that hd_in_set [of groups]
    by (auto simp: getGroupFallback_def find_Some_iff find_None_iff split: if_splits option.splits)
  have N: "getGroupFallback groups f = None" if "f \<in> go_value ` set groups" for f
    using that by (auto simp: getGroupFallback_def)
  have "getGroupFallback groups curg = None \<longleftrightarrow> groups = [] \<or> curg \<in> go_value ` set groups"
    by (auto simp: getGroupFallback_def split: option.splits)
  moreover have "getModelFallback models cur = None \<longleftrightarrow> models = [] \<or> cur \<in> mo_value ` set models"
    by (auto simp: getModelFallback_def)
  moreover have "\<forall>f. getModelFallback models cur = Some f \<longrightarrow> f \<in> mo_value ` set models \<and> getModelFallback models f = None"
    using hd_in_set [of models] by (auto simp: getModelFallback_def split: if_splits)
  moreover have "\<forall>f. getGroupFallback groups curg = Some f \<longrightarrow> f \<in> go_value ` set groups \<and> getGroupFallback groups f = None
      \<and> (js ''default'' \<in> go_value ` set groups \<longrightarrow> f = js ''default'')"
    using G N by simp
  ultimately show ?thesis by (intro conjI)
qed

theorem fallback_settles_witness:
  "getGroupFallback [\<lparr>go_label = [], go_value = js ''vip'', go_ratio = 1, go_desc = None\<rparr>,
                     \<lparr>go_label = [], go_value = js ''default'', go_ratio = 1, go_desc = None\<rparr>] (js ''gone'')
     = Some (js ''default'')"
  using fallback_settles [of "[]" "[]" "[\<lparr>go_label = [], go_value = js ''vip'', go_ratio = 1, go_desc = None\<rparr>,
       \<lparr>go_label = [], go_value = js ''default'', go_ratio = 1, go_desc = None\<rparr>]" "js ''gone''"]
  by (auto simp: image_iff)

end
