(* ===== verification/PgStorage.thy ===== *)
theory PgStorage
  imports PgStream "HOL-Library.Monad_Syntax"
begin

text \<open>
  Persistence of the playground (\<open>lib/storage/storage-schema.ts\<close>, \<open>lib/storage/storage.ts\<close> and
  \<open>lib/state/playground-state-utils.ts\<close>): the JSON encoding of configurations and messages, the
  versioned envelope, the clean-up of a reloaded history, and the load and save operations on
  \<open>localStorage\<close>.

  The validation library is not part of the repository. Every operation takes the parsers of the
  three schemas as an argument (record \<open>schemas\<close>); the locale \<open>storage_schemas\<close> states what the
  code relies on, that a schema accepts what was encoded from a value of its type, and
  \<open>declared_schemas\<close> reads the declarations of \<open>storage-schema.ts\<close> field by field, rejecting a
  field of another type and dropping unknown keys.
\<close>

section \<open>Constants\<close>

definition STORAGE_VERSION :: jsnum where "STORAGE_VERSION = 1"
definition MAX_STORED_MESSAGES :: nat where "MAX_STORED_MESSAGES = 100"
definition MAX_STORED_MESSAGES_BYTES :: nat where "MAX_STORED_MESSAGES_BYTES = 1024 * 1024"
definition MAX_LOADED_MESSAGES_CHARS :: nat where "MAX_LOADED_MESSAGES_CHARS = 120000"
definition MAX_LOADED_MESSAGE_CHARS :: nat where "MAX_LOADED_MESSAGE_CHARS = 40000"

definition KEY_CONFIG :: jstr where "KEY_CONFIG = js ''playground_config''"
definition KEY_MESSAGES :: jstr where "KEY_MESSAGES = js ''playground_messages''"
definition KEY_PARAMETER_ENABLED :: jstr where "KEY_PARAMETER_ENABLED = js ''playground_parameter_enabled''"

definition TRUNCATED_CONTENT_SUFFIX :: jstr where
  "TRUNCATED_CONTENT_SUFFIX = [10, 10, 91, 46, 46, 46, 93]"

definition MIN_PREFIX_COLLAPSE_LENGTH :: nat where "MIN_PREFIX_COLLAPSE_LENGTH = 2000"
definition MIN_REPEATED_SECTION_COUNT :: nat where "MIN_REPEATED_SECTION_COUNT = 3"

section \<open>Partial configurations\<close>

record partial_config =
  p_model :: "jstr option"
  p_group :: "jstr option"
  p_temperature :: "jsnum option"
  p_top_p :: "jsnum option"
  p_max_tokens :: "jsnum option"
  p_frequency_penalty :: "jsnum option"
  p_presence_penalty :: "jsnum option"
  p_seed :: "jsnum option option"
  p_stream :: "bool option"
  p_autoResendEnabled :: "bool option"
  p_autoResendMaxRetries :: "jsnum option"

record partial_enabled =
  pe_temperature :: "bool option"
  pe_top_p :: "bool option"
  pe_max_tokens :: "bool option"
  pe_frequency_penalty :: "bool option"
  pe_presence_penalty :: "bool option"
  pe_seed :: "bool option"

definition empty_config :: partial_config where
  "empty_config = \<lparr>p_model = None, p_group = None, p_temperature = None, p_top_p = None,
     p_max_tokens = None, p_frequency_penalty = None, p_presence_penalty = None, p_seed = None,
     p_stream = None, p_autoResendEnabled = None, p_autoResendMaxRetries = None\<rparr>"

definition empty_enabled :: partial_enabled where
  "empty_enabled = \<lparr>pe_temperature = None, pe_top_p = None, pe_max_tokens = None,
     pe_frequency_penalty = None, pe_presence_penalty = None, pe_seed = None\<rparr>"

section \<open>Encoding\<close>

text \<open>\<open>JSON.stringify\<close> leaves out the fields that are \<open>undefined\<close>.\<close>

definition present :: "(jstr \<times> json option) list \<Rightarrow> (jstr \<times> json) list" where
  "present fs = List.map_filter (\<lambda>(k, v). map_option (Pair k) v) fs"

definition encode_config :: "partial_config \<Rightarrow> json" where
  "encode_config c = JObj (present
     [(js ''model'', map_option JStr (p_model c)),
      (js ''group'', map_option JStr (p_group c)),
      (js ''temperature'', map_option JNum (p_temperature c)),
      (js ''top_p'', map_option JNum (p_top_p c)),
      (js ''max_tokens'', map_option JNum (p_max_tokens c)),
      (js ''frequency_penalty'', map_option JNum (p_frequency_penalty c)),
      (js ''presence_penalty'', map_option JNum (p_presence_penalty c)),
      (js ''seed'', map_option (case_option JNull JNum) (p_seed c)),
      (js ''stream'', map_option JBool (p_stream c)),
      (js ''autoResendEnabled'', map_option JBool (p_autoResendEnabled c)),
      (js ''autoResendMaxRetries'', map_option JNum (p_autoResendMaxRetries c))])"

definition encode_enabled :: "partial_enabled \<Rightarrow> json" where
  "encode_enabled e = JObj (present
     [(js ''temperature'', map_option JBool (pe_temperature e)),
      (js ''top_p'', map_option JBool (pe_top_p e)),
      (js ''max_tokens'', map_option JBool (pe_max_tokens e)),
      (js ''frequency_penalty'', map_option JBool (pe_frequency_penalty e)),
      (js ''presence_penalty'', map_option JBool (pe_presence_penalty e)),
      (js ''seed'', map_option JBool (pe_seed e))])"

fun encode_role :: "message_role \<Rightarrow> json" where
  "encode_role RoleUser = JStr (js ''user'')"
| "encode_role RoleAssistant = JStr (js ''assistant'')"
| "encode_role RoleSystem = JStr (js ''system'')"

fun encode_status :: "message_status \<Rightarrow> json" where
  "encode_status StLoading = JStr (js ''loading'')"
| "encode_status StStreaming = JStr (js ''streaming'')"
| "encode_status StComplete = JStr (js ''complete'')"
| "encode_status StError = JStr (js ''error'')"

definition encode_version :: "message_version \<Rightarrow> json" where
  "encode_version v = JObj [(js ''id'', JStr (v_id v)), (js ''content'', JStr (v_content v))]"

definition encode_source :: "source_link \<Rightarrow> json" where
  "encode_source s = JObj [(js ''href'', JStr (s_href s)), (js ''title'', JStr (s_title s))]"

definition encode_reasoning :: "reasoning \<Rightarrow> json" where
  "encode_reasoning r = JObj (present
     [(js ''content'', Some (JStr (r_content r))),
      (js ''duration'', Some (JNum (r_duration r))),
      (js ''startedAt'', map_option JNum (r_startedAt r)),
      (js ''completedAt'', map_option JNum (r_completedAt r)),
      (js ''durationMs'', map_option JNum (r_durationMs r))])"

definition encode_message :: "message \<Rightarrow> json" where
  "encode_message m = JObj (present
     [(js ''key'', Some (JStr (m_key m))),
      (js ''from'', Some (encode_role (m_from m))),
      (js ''versions'', Some (JArr (map encode_version (m_versions m)))),
      (js ''createdAt'', map_option JNum (m_createdAt m)),
      (js ''startedAt'', map_option JNum (m_startedAt m)),
      (js ''completedAt'', map_option JNum (m_completedAt m)),
      (js ''durationMs'', map_option JNum (m_durationMs m)),
      (js ''sources'', map_option (\<lambda>ss. JArr (map encode_source ss)) (m_sources m)),
      (js ''reasoning'', map_option encode_reasoning (m_reasoning m)),
      (js ''isReasoningStreaming'', map_option JBool (m_isReasoningStreaming m)),
      (js ''isReasoningComplete'', map_option JBool (m_isReasoningComplete m)),
      (js ''isContentComplete'', map_option JBool (m_isContentComplete m)),
      (js ''status'', map_option encode_status (m_status m)),
      (js ''errorCode'', map_option (case_option JNull JStr) (m_errorCode m)),
      (js ''pendingAutoResend'', map_option JBool (m_pendingAutoResend m))])"

definition encode_messages :: "message list \<Rightarrow> json" where
  "encode_messages ms = JArr (map encode_message ms)"

section \<open>The declared schemas\<close>

fun all_some :: "'a option list \<Rightarrow> 'a list option" where
  "all_some [] = Some []"
| "all_some (None # xs) = None"
| "all_some (Some x # xs) = map_option ((#) x) (all_some xs)"

fun z_string :: "json \<Rightarrow> jstr option" where
  "z_string (JStr s) = Some s"
| "z_string _ = None"

fun z_number :: "json \<Rightarrow> jsnum option" where
  "z_number (JNum x) = Some x"
| "z_number _ = None"

fun z_boolean :: "json \<Rightarrow> bool option" where
  "z_boolean (JBool b) = Some b"
| "z_boolean _ = None"

definition z_nullable :: "(json \<Rightarrow> 'a option) \<Rightarrow> json \<Rightarrow> 'a option option" where
  "z_nullable p j = (if j = JNull then Some None else map_option Some (p j))"

definition z_array :: "(json \<Rightarrow> 'a option) \<Rightarrow> json \<Rightarrow> 'a list option" where
  "z_array p j = (case j of JArr xs \<Rightarrow> all_some (map p xs) | _ \<Rightarrow> None)"

definition field :: "jstr \<Rightarrow> (json \<Rightarrow> 'a option) \<Rightarrow> json \<Rightarrow> 'a option" where
  "field k p j = Option.bind (json_get k j) p"

definition opt_field :: "jstr \<Rightarrow> (json \<Rightarrow> 'a option) \<Rightarrow> json \<Rightarrow> 'a option option" where
  "opt_field k p j = (case json_get k j of None \<Rightarrow> Some None | Some v \<Rightarrow> map_option Some (p v))"

definition playgroundConfigSchema :: "json \<Rightarrow> partial_config option" where
  "playgroundConfigSchema j = (if \<not> json_is_plain_object j then None else do {
     a \<leftarrow> opt_field (js ''model'') z_string j;
     b \<leftarrow> opt_field (js ''group'') z_string j;
     c \<leftarrow> opt_field (js ''temperature'') z_number j;
     d \<leftarrow> opt_field (js ''top_p'') z_number j;
     e \<leftarrow> opt_field (js ''max_tokens'') z_number j;
     f \<leftarrow> opt_field (js ''frequency_penalty'') z_number j;
     g \<leftarrow> opt_field (js ''presence_penalty'') z_number j;
     h \<leftarrow> opt_field (js ''seed'') (z_nullable z_number) j;
     i \<leftarrow> opt_field (js ''stream'') z_boolean j;
     k \<leftarrow> opt_field (js ''autoResendEnabled'') z_boolean j;
     l \<leftarrow> opt_field (js ''autoResendMaxRetries'') z_number j;
     Some \<lparr>p_model = a, p_group = b, p_temperature = c, p_top_p = d, p_max_tokens = e,
       p_frequency_penalty = f, p_presence_penalty = g, p_seed = h, p_stream = i,
       p_autoResendEnabled = k, p_autoResendMaxRetries = l\<rparr>})"

definition parameterEnabledSchema :: "json \<Rightarrow> partial_enabled option" where
  "parameterEnabledSchema j = (if \<not> json_is_plain_object j then None else do {
     a \<leftarrow> opt_field (js ''temperature'') z_boolean j;
     b \<leftarrow> opt_field (js ''top_p'') z_boolean j;
     c \<leftarrow> opt_field (js ''max_tokens'') z_boolean j;
     d \<leftarrow> opt_field (js ''frequency_penalty'') z_boolean j;
     e \<leftarrow> opt_field (js ''presence_penalty'') z_boolean j;
     f \<leftarrow> opt_field (js ''seed'') z_boolean j;
     Some \<lparr>pe_temperature = a, pe_top_p = b, pe_max_tokens = c, pe_frequency_penalty = d,
       pe_presence_penalty = e, pe_seed = f\<rparr>})"

definition messageRoleSchema :: "json \<Rightarrow> message_role option" where
  "messageRoleSchema j =
     (if j = JStr (js ''user'') then Some RoleUser
      else if j = JStr (js ''assistant'') then Some RoleAssistant
      else if j = JStr (js ''system'') then Some RoleSystem
      else None)"

definition messageStatusSchema :: "json \<Rightarrow> message_status option" where
  "messageStatusSchema j =
     (if j = JStr (js ''loading'') then Some StLoading
      else if j = JStr (js ''streaming'') then Some StStreaming
      else if j = JStr (js ''complete'') then Some StComplete
      else if j = JStr (js ''error'') then Some StError
      else None)"

definition messageVersionSchema :: "json \<Rightarrow> message_version option" where
  "messageVersionSchema j = do {
     a \<leftarrow> field (js ''id'') z_string j;
     b \<leftarrow> field (js ''content'') z_string j;
     Some \<lparr>v_id = a, v_content = b\<rparr>}"

definition sourceSchema :: "json \<Rightarrow> source_link option" where
  "sourceSchema j = do {
     a \<leftarrow> field (js ''href'') z_string j;
     b \<leftarrow> field (js ''title'') z_string j;
     Some \<lparr>s_href = a, s_title = b\<rparr>}"

definition reasoningSchema :: "json \<Rightarrow> reasoning option" where
  "reasoningSchema j = do {
     a \<leftarrow> field (js ''content'') z_string j;
     b \<leftarrow> field (js ''duration'') z_number j;
     c \<leftarrow> opt_field (js ''startedAt'') z_number j;
     d \<leftarrow> opt_field (js ''completedAt'') z_number j;
     e \<leftarrow> opt_field (js ''durationMs'') z_number j;
     Some \<lparr>r_content = a, r_duration = b, r_startedAt = c, r_completedAt = d, r_durationMs = e\<rparr>}"

definition z_nonempty :: "'a list option \<Rightarrow> 'a list option" where
  "z_nonempty xs = (if xs = Some [] then None else xs)"

definition messageSchema :: "json \<Rightarrow> message option" where
  "messageSchema j = do {
     a \<leftarrow> field (js ''key'') z_string j;
     b \<leftarrow> field (js ''from'') messageRoleSchema j;
     c \<leftarrow> field (js ''versions'') (\<lambda>v. z_nonempty (z_array messageVersionSchema v)) j;
     d \<leftarrow> opt_field (js ''createdAt'') z_number j;
     e \<leftarrow> opt_field (js ''startedAt'') z_number j;
     f \<leftarrow> opt_field (js ''completedAt'') z_number j;
     g \<leftarrow> opt_field (js ''durationMs'') z_number j;
     h \<leftarrow> opt_field (js ''sources'') (z_array sourceSchema) j;
     i \<leftarrow> opt_field (js ''reasoning'') reasoningSchema j;
     k \<leftarrow> opt_field (js ''isReasoningStreaming'') z_boolean j;
     l \<leftarrow> opt_field (js ''isReasoningComplete'') z_boolean j;
     n \<leftarrow> opt_field (js ''isContentComplete'') z_boolean j;
     p \<leftarrow> opt_field (js ''status'') messageStatusSchema j;
     q \<leftarrow> opt_field (js ''errorCode'') (z_nullable z_string) j;
     r \<leftarrow> opt_field (js ''pendingAutoResend'') z_boolean j;
     Some \<lparr>m_key = a, m_from = b, m_versions = c, m_createdAt = d, m_startedAt = e,
       m_completedAt = f, m_durationMs = g, m_sources = h, m_reasoning = i,
       m_isReasoningStreaming = k, m_isReasoningComplete = l, m_isContentComplete = n,
       m_status = p, m_errorCode = q, m_pendingAutoResend = r\<rparr>}"

definition messagesSchema :: "json \<Rightarrow> message list option" where
  "messagesSchema j = z_array messageSchema j"

record schemas =
  config_schema :: "json \<Rightarrow> partial_config option"
  enabled_schema :: "json \<Rightarrow> partial_enabled option"
  messages_schema :: "json \<Rightarrow> message list option"

definition declared_schemas :: schemas where
  "declared_schemas = \<lparr>config_schema = playgroundConfigSchema, enabled_schema = parameterEnabledSchema,
     messages_schema = messagesSchema\<rparr>"

section \<open>Local storage\<close>

text \<open>The items and the quota of an origin; \<open>setItem\<close> throws when the quota would be exceeded.\<close>

record local_storage =
  items :: "(jstr, jstr) jmap"
  quota :: nat

definition used_space :: "(jstr, jstr) jmap \<Rightarrow> nat" where
  "used_space s = sum_list (map (\<lambda>(k, v). length k + length v) s)"

definition getItem :: "local_storage \<Rightarrow> jstr \<Rightarrow> jstr option" where
  "getItem s key = map_get (items s) key"

definition setItem :: "local_storage \<Rightarrow> jstr \<Rightarrow> jstr \<Rightarrow> local_storage option" where
  "setItem s key v =
     (let new_items = map_set key v (items s) in
      if used_space new_items \<le> quota s then Some (s\<lparr>items := new_items\<rparr>) else None)"

definition removeItem :: "local_storage \<Rightarrow> jstr \<Rightarrow> local_storage" where
  "removeItem s key = s\<lparr>items := map_delete key (items s)\<rparr>"

text \<open>The outcome of a read: an exception, nothing, or a value.\<close>

datatype 'a read_result = Thrown | Nothing | Found 'a

definition readStoredValue :: "local_storage \<Rightarrow> jstr \<Rightarrow> json read_result" where
  "readStoredValue s key =
     (if opt_str (getItem s key) = [] then Nothing
      else case JSON_parse (opt_str (getItem s key)) of None \<Rightarrow> Thrown | Some v \<Rightarrow> Found v)"

definition readStoredMessagesValue :: "local_storage \<Rightarrow> local_storage \<times> json read_result" where
  "readStoredMessagesValue s =
     (let saved = opt_str (getItem s KEY_MESSAGES) in
      if saved = [] then (s, Nothing)
      else if length saved > MAX_STORED_MESSAGES_BYTES then (removeItem s KEY_MESSAGES, Nothing)
      else (s, case JSON_parse saved of None \<Rightarrow> Thrown | Some v \<Rightarrow> Found v))"

definition unwrapStoredValue :: "json \<Rightarrow> json" where
  "unwrapStoredValue v =
     (case (json_get (js ''version'') v, json_get (js ''data'') v) of
        (Some _, Some data) \<Rightarrow> data
      | _ \<Rightarrow> v)"

definition stored_envelope :: "json \<Rightarrow> json" where
  "stored_envelope data = JObj [(js ''version'', JNum STORAGE_VERSION), (js ''data'', data)]"

definition writeStoredValue :: "local_storage \<Rightarrow> jstr \<Rightarrow> json \<Rightarrow> local_storage option" where
  "writeStoredValue s key data = setItem s key (JSON_stringify [] (stored_envelope data))"

section \<open>Trimming and normalising a history\<close>

definition trimMessages :: "message list \<Rightarrow> message list" where
  "trimMessages messages =
     (if length messages \<le> MAX_STORED_MESSAGES then messages
      else drop (length messages - MAX_STORED_MESSAGES) messages)"

definition getMessageSize :: "message \<Rightarrow> nat" where
  "getMessageSize m =
     foldl (\<lambda>total version. total + length (v_content version)) 0 (m_versions m)
     + (case m_reasoning m of None \<Rightarrow> 0 | Some r \<Rightarrow> length (r_content r))"

definition truncateText :: "jstr \<Rightarrow> nat \<Rightarrow> jstr" where
  "truncateText s maxLength =
     (if length s \<le> maxLength then s
      else if maxLength \<le> length TRUNCATED_CONTENT_SUFFIX then slice s 0 maxLength
      else slice s 0 (maxLength - length TRUNCATED_CONTENT_SUFFIX) @ TRUNCATED_CONTENT_SUFFIX)"

text \<open>
  A match of \<open>/^#{2,6}\s+\d+\.\s+.+$/m\<close> at the start of a line, as its length. The runs of \<open>#\<close>, of
  white space before the number and of digits are each ended by a character they cannot contain,
  so they match greedily without going back. The white space after the dot may give characters
  back when the text ends with it: \<open>.+\<close> then starts at the last of them that is not a line
  terminator, the first one excepted.
\<close>

definition is_lt :: "jchar \<Rightarrow> bool" where
  "is_lt c \<longleftrightarrow> c = 10 \<or> c = 13 \<or> c = 8232 \<or> c = 8233"

definition line_length :: "jstr \<Rightarrow> nat" where
  "line_length s = length (takeWhile (\<lambda>c. \<not> is_lt c) s)"

definition match_title :: "jstr \<Rightarrow> nat option" where
  "match_title s =
     (let w = length (takeWhile is_ws s) in
      if w = 0 then None
      else if w < length s then Some (w + line_length (drop w s))
      else case findLastIndex (\<lambda>c. \<not> is_lt c) (tl s) of
        None \<Rightarrow> None
      | Some i \<Rightarrow> Some (Suc i + line_length (drop (Suc i) s)))"

definition match_heading :: "jstr \<Rightarrow> nat option" where
  "match_heading s =
     (let hashes = length (takeWhile (\<lambda>c. c = 35) s); r1 = drop hashes s;
          spaces = length (takeWhile is_ws r1); r2 = drop spaces r1;
          digits = length (takeWhile is_digit r2); r3 = drop digits r2 in
      if hashes < 2 \<or> 6 < hashes \<or> spaces = 0 \<or> digits = 0 then None
      else case r3 of
        [] \<Rightarrow> None
      | c # r4 \<Rightarrow>
          (if c \<noteq> 46 then None
           else map_option (\<lambda>n. hashes + spaces + digits + 1 + n) (match_title r4)))"

record section_occurrence =
  heading :: jstr
  occ_index :: nat

text \<open>\<open>matchAll\<close> goes on after the end of a match; \<open>bol\<close> says that the position is at the beginning
  of a line.\<close>

function section_scan :: "bool \<Rightarrow> nat \<Rightarrow> jstr \<Rightarrow> section_occurrence list" where
  "section_scan bol i [] = []"
| "section_scan bol i (c # cs) =
     (case (if bol then match_heading (c # cs) else None) of
        Some n \<Rightarrow>
          \<lparr>heading = take (Suc (n - 1)) (c # cs), occ_index = i\<rparr> #
            section_scan False (i + Suc (n - 1)) (drop (n - 1) cs)
      | None \<Rightarrow> section_scan (is_lt c) (Suc i) cs)"
  by pat_completeness auto
termination by (relation "measure (\<lambda>(_, _, s). length s)") auto

definition getSectionOccurrences :: "jstr \<Rightarrow> section_occurrence list" where
  "getSectionOccurrences s = section_scan True 0 s"

definition getHeadingCounts :: "section_occurrence list \<Rightarrow> (jstr, nat) jmap" where
  "getHeadingCounts occurrences =
     foldl (\<lambda>counts occ. map_set (heading occ) (nullish_or (map_get counts (heading occ)) 0 + 1) counts)
       [] occurrences"

fun last_repeated_loop ::
  "(jstr, nat) jmap \<Rightarrow> section_occurrence list \<Rightarrow> jstr list \<Rightarrow> nat list \<Rightarrow> nat list" where
  "last_repeated_loop counts [] seen acc = acc"
| "last_repeated_loop counts (occ # occs) seen acc =
     (if nullish_or (map_get counts (heading occ)) 0 < MIN_REPEATED_SECTION_COUNT \<or> heading occ \<in> set seen
      then last_repeated_loop counts occs seen acc
      else last_repeated_loop counts occs (heading occ # seen) (acc @ [occ_index occ]))"

definition findLastRepeatedSectionRunStart :: "jstr \<Rightarrow> nat option" where
  "findLastRepeatedSectionRunStart s =
     (let occurrences = getSectionOccurrences s;
          headingCounts = getHeadingCounts occurrences;
          lastRepeatedIndexes = last_repeated_loop headingCounts (rev occurrences) [] [] in
      if lastRepeatedIndexes = [] then None else Some (Min (set lastRepeatedIndexes)))"

definition collapseRepeatedSectionSnapshots :: "jstr \<Rightarrow> jstr" where
  "collapseRepeatedSectionSnapshots s =
     (if length s < MIN_PREFIX_COLLAPSE_LENGTH then s
      else case findLastRepeatedSectionRunStart s of None \<Rightarrow> s | Some i \<Rightarrow> drop i s)"

definition normalizeVersion :: "message_version \<Rightarrow> message_version" where
  "normalizeVersion version =
     version\<lparr>v_content :=
       truncateText (collapseRepeatedSectionSnapshots (v_content version)) MAX_LOADED_MESSAGE_CHARS\<rparr>"

definition normalizeStoredMessageForLoad :: "jsnum \<Rightarrow> message \<Rightarrow> message" where
  "normalizeStoredMessageForLoad now m =
     (let versions = map normalizeVersion (m_versions m);
          reasoning = map_option
            (\<lambda>r. r\<lparr>r_content := truncateText (r_content r) MAX_LOADED_MESSAGE_CHARS\<rparr>) (m_reasoning m);
          changed = (versions \<noteq> m_versions m \<or> reasoning \<noteq> m_reasoning m);
          normalized = (if changed then m\<lparr>m_versions := versions, m_reasoning := reasoning\<rparr> else m) in
      if \<not> isAssistantMessagePending normalized then normalized
      else
        (let hasContent = hasMessageContent normalized;
             hasReasoning = (case m_reasoning normalized of None \<Rightarrow> False | Some r \<Rightarrow> trim (r_content r) \<noteq> []) in
         if \<not> hasContent \<and> \<not> hasReasoning then normalized
         else
           (let completedAt =
                  nullish_or (m_completedAt normalized)
                   (nullish_or (Option.bind (m_reasoning normalized) r_completedAt)
                     (nullish_or (m_startedAt normalized)
                       (nullish_or (m_createdAt normalized) now))) in
            completeAssistantTiming
              ((finalizeMessage now normalized None)
                 \<lparr>m_status := Some StComplete, m_isReasoningStreaming := Some False\<rparr>) completedAt)))"

fun size_trim_loop :: "message list \<Rightarrow> nat \<Rightarrow> message list \<Rightarrow> message list" where
  "size_trim_loop [] totalSize result = result"
| "size_trim_loop (m # ms) totalSize result =
     (if length result > 0 \<and> totalSize + getMessageSize m > MAX_LOADED_MESSAGES_CHARS then result
      else size_trim_loop ms (totalSize + getMessageSize m) (result @ [m]))"

definition trimMessagesByContentSize :: "message list \<Rightarrow> message list" where
  "trimMessagesByContentSize messages = rev (size_trim_loop (rev messages) 0 [])"

section \<open>Load and save\<close>

definition loadConfig :: "schemas \<Rightarrow> local_storage \<Rightarrow> partial_config" where
  "loadConfig z s =
     (case readStoredValue s KEY_CONFIG of
        Found saved \<Rightarrow>
          (if \<not> json_truthy saved then empty_config
           else nullish_or (config_schema z (unwrapStoredValue saved)) empty_config)
      | _ \<Rightarrow> empty_config)"

text \<open>A save that throws, in the schema or in \<open>setItem\<close>, leaves the storage as it is.\<close>

definition saveConfig :: "schemas \<Rightarrow> local_storage \<Rightarrow> partial_config \<Rightarrow> local_storage" where
  "saveConfig z s config =
     (case config_schema z (encode_config config) of
        None \<Rightarrow> s
      | Some parsed \<Rightarrow> nullish_or (writeStoredValue s KEY_CONFIG (encode_config parsed)) s)"

definition loadParameterEnabled :: "schemas \<Rightarrow> local_storage \<Rightarrow> partial_enabled" where
  "loadParameterEnabled z s =
     (case readStoredValue s KEY_PARAMETER_ENABLED of
        Found saved \<Rightarrow>
          (if \<not> json_truthy saved then empty_enabled
           else nullish_or (enabled_schema z (unwrapStoredValue saved)) empty_enabled)
      | _ \<Rightarrow> empty_enabled)"

definition saveParameterEnabled :: "schemas \<Rightarrow> local_storage \<Rightarrow> partial_enabled \<Rightarrow> local_storage" where
  "saveParameterEnabled z s parameterEnabled =
     (case enabled_schema z (encode_enabled parameterEnabled) of
        None \<Rightarrow> s
      | Some parsed \<Rightarrow> nullish_or (writeStoredValue s KEY_PARAMETER_ENABLED (encode_enabled parsed)) s)"

definition saveMessages :: "schemas \<Rightarrow> local_storage \<Rightarrow> message list \<Rightarrow> local_storage" where
  "saveMessages z s messages =
     (case messages_schema z (encode_messages (trimMessages messages)) of
        None \<Rightarrow> s
      | Some parsed \<Rightarrow> nullish_or (writeStoredValue s KEY_MESSAGES (encode_messages parsed)) s)"

definition clean_history :: "jsnum \<Rightarrow> message list \<Rightarrow> message list" where
  "clean_history now parsed =
     sanitizeMessagesOnLoad (trimMessagesByContentSize (trimMessages
       (map (normalizeStoredMessageForLoad now) parsed)))"

text \<open>\<open>trimMessagesByContentSize\<close> always builds a new array, so the test \<open>sizeTrimmed !== trimmed\<close>
  always holds and a successful load always writes the history back.\<close>

definition loadMessages :: "schemas \<Rightarrow> jsnum \<Rightarrow> local_storage \<Rightarrow> local_storage \<times> message list option" where
  "loadMessages z now s =
     (case readStoredMessagesValue s of
        (s', Found saved) \<Rightarrow>
          (if \<not> json_truthy saved then (s', None)
           else case messages_schema z (unwrapStoredValue saved) of
             None \<Rightarrow> (s', None)
           | Some parsed \<Rightarrow>
               (let sanitized = clean_history now parsed in (saveMessages z s' sanitized, Some sanitized)))
      | (s', _) \<Rightarrow> (s', None))"

definition clearPlaygroundData :: "local_storage \<Rightarrow> local_storage" where
  "clearPlaygroundData s =
     removeItem (removeItem (removeItem s KEY_CONFIG) KEY_PARAMETER_ENABLED) KEY_MESSAGES"

section \<open>playground-state-utils.ts\<close>

datatype message_state_updater = SetMessages "message list" | UpdateMessages "message list \<Rightarrow> message list"

definition spread_config :: "playground_config \<Rightarrow> partial_config \<Rightarrow> playground_config" where
  "spread_config d p =
     \<lparr>c_model = nullish_or (p_model p) (c_model d), c_group = nullish_or (p_group p) (c_group d),
      c_temperature = nullish_or (p_temperature p) (c_temperature d), c_top_p = nullish_or (p_top_p p) (c_top_p d),
      c_max_tokens = nullish_or (p_max_tokens p) (c_max_tokens d),
      c_frequency_penalty = nullish_or (p_frequency_penalty p) (c_frequency_penalty d),
      c_presence_penalty = nullish_or (p_presence_penalty p) (c_presence_penalty d),
      c_seed = nullish_or (p_seed p) (c_seed d), c_stream = nullish_or (p_stream p) (c_stream d),
      c_autoResendEnabled = nullish_or (p_autoResendEnabled p) (c_autoResendEnabled d),
      c_autoResendMaxRetries = nullish_or (p_autoResendMaxRetries p) (c_autoResendMaxRetries d)\<rparr>"

definition getInitialPlaygroundConfig :: "schemas \<Rightarrow> local_storage \<Rightarrow> playground_config" where
  "getInitialPlaygroundConfig z s = spread_config DEFAULT_CONFIG (loadConfig z s)"

definition getInitialParameterEnabled :: "schemas \<Rightarrow> local_storage \<Rightarrow> parameter_enabled" where
  "getInitialParameterEnabled z s =
     (let d = DEFAULT_PARAMETER_ENABLED; p = loadParameterEnabled z s in
      \<lparr>e_temperature = nullish_or (pe_temperature p) (e_temperature d), e_top_p = nullish_or (pe_top_p p) (e_top_p d),
       e_max_tokens = nullish_or (pe_max_tokens p) (e_max_tokens d),
       e_frequency_penalty = nullish_or (pe_frequency_penalty p) (e_frequency_penalty d),
       e_presence_penalty = nullish_or (pe_presence_penalty p) (e_presence_penalty d),
       e_seed = nullish_or (pe_seed p) (e_seed d)\<rparr>)"

definition getInitialMessages :: "schemas \<Rightarrow> jsnum \<Rightarrow> local_storage \<Rightarrow> local_storage \<times> message list" where
  "getInitialMessages z now s = (let (s', ms) = loadMessages z now s in (s', nullish_or ms []))"

fun applyMessageStateUpdate :: "message list \<Rightarrow> message_state_updater \<Rightarrow> message list" where
  "applyMessageStateUpdate previousMessages (SetMessages ms) = ms"
| "applyMessageStateUpdate previousMessages (UpdateMessages updater) = updater previousMessages"

section \<open>The schemas accept what was encoded\<close>

lemma map_of_present:
  "distinct (map fst fs) \<Longrightarrow> map_of (present fs) k = (case map_of fs k of Some v \<Rightarrow> v | None \<Rightarrow> None)"
proof (induction fs)
  case Nil
  then show ?case by (simp add: present_def map_filter_simps)
next
  case (Cons f fs)
  obtain k' v where f: "f = (k', v)" by (cases f)
  have n: "k' \<notin> set (map fst fs)" using Cons.prems by (simp add: f)
  then have "map_of fs k' = None" by (simp add: map_of_eq_None_iff)
  then show ?case using Cons.IH Cons.prems
    by (cases v) (auto simp: f present_def map_filter_simps)
qed

lemma distinct_present: "distinct (map fst fs) \<Longrightarrow> distinct (map fst (present fs))"
proof (induction fs)
  case (Cons f fs)
  obtain k v where f: "f = (k, v)" by (cases f)
  have "set (map fst (present fs)) \<subseteq> set (map fst fs)"
    by (force simp: present_def map_filter_def)
  with Cons show ?case by (cases v) (auto simp: f present_def map_filter_simps)
qed (simp add: present_def map_filter_simps)

lemma present_member: "p \<in> set (present fs) \<longleftrightarrow> (fst p, Some (snd p)) \<in> set fs"
  by (cases p) (force simp: present_def map_filter_def)

lemma all_some_map: "(\<And>x. x \<in> set xs \<Longrightarrow> f (g x) = Some x) \<Longrightarrow> all_some (map f (map g xs)) = Some xs"
  by (induction xs) auto

lemmas schema_simps =
  field_def opt_field_def z_nullable_def z_array_def z_nonempty_def
  messageRoleSchema_def messageStatusSchema_def

lemma role_decodes [simp]: "messageRoleSchema (encode_role r) = Some r"
  by (cases r) (simp_all add: messageRoleSchema_def)

lemma status_decodes [simp]: "messageStatusSchema (encode_status r) = Some r"
  by (cases r) (simp_all add: messageStatusSchema_def)

lemma version_decodes [simp]: "messageVersionSchema (encode_version v) = Some v"
  by (simp add: messageVersionSchema_def encode_version_def field_def)

lemma source_decodes [simp]: "sourceSchema (encode_source v) = Some v"
  by (simp add: sourceSchema_def encode_source_def field_def)

lemma versions_decode [simp]: "z_array messageVersionSchema (JArr (map encode_version vs)) = Some vs"
  by (simp add: z_array_def all_some_map del: map_map)

lemma sources_decode [simp]: "z_array sourceSchema (JArr (map encode_source vs)) = Some vs"
  by (simp add: z_array_def all_some_map del: map_map)

lemma opt_field_present:
  "distinct (map fst fs) \<Longrightarrow> map_of fs k = Some (map_option e y) \<Longrightarrow> (\<And>x. p (e x) = Some x) \<Longrightarrow>
   opt_field k p (JObj (present fs)) = Some y"
  by (cases y) (simp_all add: opt_field_def map_of_present)

lemma field_present:
  "distinct (map fst fs) \<Longrightarrow> map_of fs k = Some v \<Longrightarrow> field k p (JObj (present fs)) = Option.bind v p"
  by (simp add: field_def map_of_present)

lemma decode_nullables [simp]:
  "z_nullable z_number (case_option JNull JNum x) = Some x"
  "z_nullable z_string (case_option JNull JStr y) = Some y"
  by (auto simp: z_nullable_def split: option.splits)

lemma reasoning_decodes [simp]: "reasoningSchema (encode_reasoning r) = Some r"
  by (simp add: reasoningSchema_def encode_reasoning_def opt_field_present field_present)

lemma message_decodes: "m_versions m \<noteq> [] \<Longrightarrow> messageSchema (encode_message m) = Some m"
  by (simp add: messageSchema_def encode_message_def opt_field_present field_present z_nonempty_def)

lemma messages_decode:
  "\<forall>m\<in>set ms. m_versions m \<noteq> [] \<Longrightarrow> messagesSchema (encode_messages ms) = Some ms"
  by (simp add: messagesSchema_def encode_messages_def z_array_def all_some_map message_decodes del: map_map)

lemma config_decodes: "playgroundConfigSchema (encode_config c) = Some c"
  by (simp add: playgroundConfigSchema_def encode_config_def opt_field_present)

lemma enabled_decodes: "parameterEnabledSchema (encode_enabled c) = Some c"
  by (simp add: parameterEnabledSchema_def encode_enabled_def opt_field_present)

section \<open>The contract of the schemas\<close>

locale storage_schemas =
  fixes z :: schemas
  assumes config_accepts: "config_schema z (encode_config c) = Some c"
    and enabled_accepts: "enabled_schema z (encode_enabled e) = Some e"
    and messages_accepts:
      "\<forall>m\<in>set ms. m_versions m \<noteq> [] \<Longrightarrow> messages_schema z (encode_messages ms) = Some ms"

text \<open>What was written under a key is read back, and nothing else changes.\<close>

definition stored_text :: "json \<Rightarrow> jstr" where
  "stored_text data = JSON_stringify [] (stored_envelope data)"

lemma serialisable_envelope: "serialisable data \<Longrightarrow> serialisable (stored_envelope data)"
proof -
  have "plain_number 1" by code_simp
  then show "serialisable data \<Longrightarrow> serialisable (stored_envelope data)"
    by (simp add: stored_envelope_def STORAGE_VERSION_def code_units_def [symmetric])
qed

lemma stored_text_ne [simp]: "stored_text data \<noteq> []"
  by (simp add: stored_text_def JSON_stringify_def stored_envelope_def)

lemma envelope_truthy [simp]: "json_truthy (stored_envelope data)"
  by (simp add: stored_envelope_def)

lemma unwrap_envelope [simp]: "unwrapStoredValue (stored_envelope data) = data"
  by (simp add: unwrapStoredValue_def stored_envelope_def)

lemma write_getItem:
  "writeStoredValue s key data = Some s' \<Longrightarrow>
   getItem s' k = (if k = key then Some (stored_text data) else getItem s k)"
  by (auto simp: writeStoredValue_def setItem_def getItem_def jm.get_put stored_text_def Let_def split: if_splits)

lemma parse_stored_text: "serialisable data \<Longrightarrow> JSON_parse (stored_text data) = Some (stored_envelope data)"
  unfolding stored_text_def by (intro compact.decode_encode serialisable_envelope)

lemma read_written:
  "writeStoredValue s key data = Some s' \<Longrightarrow> serialisable data \<Longrightarrow>
   readStoredValue s' key = Found (stored_envelope data)"
  by (simp add: readStoredValue_def write_getItem parse_stored_text)

lemma read_written_messages:
  "writeStoredValue s KEY_MESSAGES data = Some s' \<Longrightarrow> serialisable data \<Longrightarrow>
   readStoredMessagesValue s' =
     (if length (stored_text data) > MAX_STORED_MESSAGES_BYTES then (removeItem s' KEY_MESSAGES, Nothing)
      else (s', Found (stored_envelope data)))"
  by (simp add: readStoredMessagesValue_def write_getItem parse_stored_text)

context storage_schemas
begin

lemma config_round_trip:
  assumes "writeStoredValue s KEY_CONFIG (encode_config c) \<noteq> None" "serialisable (encode_config c)"
  shows "loadConfig z (saveConfig z s c) = c"
proof -
  obtain s' where w: "writeStoredValue s KEY_CONFIG (encode_config c) = Some s'" using assms(1) by blast
  then show ?thesis using read_written [OF w assms(2)]
    by (simp add: loadConfig_def saveConfig_def config_accepts)
qed

lemma enabled_round_trip:
  assumes "writeStoredValue s KEY_PARAMETER_ENABLED (encode_enabled e) \<noteq> None" "serialisable (encode_enabled e)"
  shows "loadParameterEnabled z (saveParameterEnabled z s e) = e"
proof -
  obtain s' where w: "writeStoredValue s KEY_PARAMETER_ENABLED (encode_enabled e) = Some s'" using assms(1) by blast
  then show ?thesis using read_written [OF w assms(2)]
    by (simp add: loadParameterEnabled_def saveParameterEnabled_def enabled_accepts)
qed

lemma trim_versions: "\<forall>m\<in>set ms. m_versions m \<noteq> [] \<Longrightarrow> \<forall>m\<in>set (trimMessages ms). m_versions m \<noteq> []"
  by (auto simp: trimMessages_def dest: in_set_dropD)

lemma saved_messages:
  assumes "\<forall>m\<in>set ms. m_versions m \<noteq> []"
    and "writeStoredValue s KEY_MESSAGES (encode_messages (trimMessages ms)) = Some s'"
  shows "saveMessages z s ms = s'"
  using assms messages_accepts [OF trim_versions [OF assms(1)]] by (simp add: saveMessages_def)

lemma messages_round_trip:
  assumes "\<forall>m\<in>set ms. m_versions m \<noteq> []"
    and w: "writeStoredValue s KEY_MESSAGES (encode_messages (trimMessages ms)) = Some s'"
    and ser: "serialisable (encode_messages (trimMessages ms))"
  shows "snd (loadMessages z now (saveMessages z s ms)) =
      (if length (stored_text (encode_messages (trimMessages ms))) > MAX_STORED_MESSAGES_BYTES then None
       else Some (clean_history now (trimMessages ms)))"
    and "length (stored_text (encode_messages (trimMessages ms))) > MAX_STORED_MESSAGES_BYTES \<Longrightarrow>
      getItem (fst (loadMessages z now (saveMessages z s ms))) KEY_MESSAGES = None"
  using saved_messages [OF assms(1) w] read_written_messages [OF w ser]
    messages_accepts [OF trim_versions [OF assms(1)]]
  by (simp_all add: loadMessages_def Let_def removeItem_def getItem_def jm.get_rem)

end

interpretation declared: storage_schemas declared_schemas
  by unfold_locales (simp_all add: declared_schemas_def config_decodes enabled_decodes messages_decode)

section \<open>The clean-up of a history\<close>

definition history_size :: "message list \<Rightarrow> nat" where
  "history_size ms = sum_list (map getMessageSize ms)"

lemma history_size_Nil [simp]: "history_size [] = 0"
  by (simp add: history_size_def)

lemma size_trim_loop_prefix: "\<exists>k. size_trim_loop ms t res = res @ take k ms"
proof (induction ms t res rule: size_trim_loop.induct)
  case (2 m ms t res)
  show ?case
  proof (cases "length res > 0 \<and> t + getMessageSize m > MAX_LOADED_MESSAGES_CHARS")
    case True
    then show ?thesis by (intro exI [of _ 0]) simp
  next
    case False
    then obtain k where "size_trim_loop ms (t + getMessageSize m) (res @ [m]) = (res @ [m]) @ take k ms"
      using 2 by blast
    then show ?thesis using False by (intro exI [of _ "Suc k"]) auto
  qed
qed simp

lemma size_trim_loop_bound:
  "t = history_size res \<Longrightarrow> length res \<le> 1 \<or> t \<le> MAX_LOADED_MESSAGES_CHARS \<Longrightarrow>
   length (size_trim_loop ms t res) \<le> 1 \<or> history_size (size_trim_loop ms t res) \<le> MAX_LOADED_MESSAGES_CHARS"
proof (induction ms t res rule: size_trim_loop.induct)
  case (2 m ms t res)
  show ?case
  proof (cases "length res > 0 \<and> t + getMessageSize m > MAX_LOADED_MESSAGES_CHARS")
    case False
    then have "length (size_trim_loop ms (t + getMessageSize m) (res @ [m])) \<le> 1
        \<or> history_size (size_trim_loop ms (t + getMessageSize m) (res @ [m])) \<le> MAX_LOADED_MESSAGES_CHARS"
      using 2(2) by (intro 2(1)) (auto simp: history_size_def)
    moreover have "size_trim_loop (m # ms) t res = size_trim_loop ms (t + getMessageSize m) (res @ [m])"
      using False by auto
    ultimately show ?thesis by simp
  qed (use 2 in auto)
qed simp

lemma size_trim_loop_all:
  "t + history_size ms \<le> MAX_LOADED_MESSAGES_CHARS \<Longrightarrow> size_trim_loop ms t res = res @ ms"
  by (induction ms arbitrary: t res) (auto simp: history_size_def)

lemma history_size_rev [simp]: "history_size (rev ms) = history_size ms"
  by (simp add: history_size_def sum_list_rev rev_map [symmetric])

lemma size_trim_suffix: "\<exists>k. trimMessagesByContentSize ms = drop k ms"
proof -
  obtain k where "size_trim_loop (rev ms) 0 [] = take k (rev ms)"
    using size_trim_loop_prefix [of "rev ms" 0 "[]"] by auto
  then show ?thesis by (auto simp: trimMessagesByContentSize_def rev_take)
qed

lemma size_trim_bound:
  "length (trimMessagesByContentSize ms) \<le> 1
   \<or> history_size (trimMessagesByContentSize ms) \<le> MAX_LOADED_MESSAGES_CHARS"
  using size_trim_loop_bound [of 0 "[]" "rev ms"] by (simp add: trimMessagesByContentSize_def)

lemma size_trim_all:
  "history_size ms \<le> MAX_LOADED_MESSAGES_CHARS \<Longrightarrow> trimMessagesByContentSize ms = ms"
  by (simp add: trimMessagesByContentSize_def size_trim_loop_all)

lemma trimMessages_length: "length (trimMessages ms) \<le> MAX_STORED_MESSAGES"
  by (simp add: trimMessages_def)

lemma sanitize_size [simp]: "history_size (sanitizeMessagesOnLoad ms) = history_size ms"
proof -
  have "getMessageSize (m\<lparr>m_status := a, m_isReasoningStreaming := b, m_pendingAutoResend := c\<rparr>) = getMessageSize m" for m a b c
    by (simp add: getMessageSize_def)
  then have "map getMessageSize (sanitizeMessagesOnLoad ms) = map getMessageSize ms"
    by (auto simp: sanitizeMessagesOnLoad_def map_update list_update_same_conv dest: findLastIndex_SomeD split: option.splits)
  then show ?thesis by (simp add: history_size_def)
qed

lemma sanitize_length [simp]: "length (sanitizeMessagesOnLoad ms) = length ms"
  by (simp add: sanitizeMessagesOnLoad_def split: option.split)

lemma clean_history_bounds:
  "length (clean_history now ms) \<le> MAX_STORED_MESSAGES
   \<and> (length (clean_history now ms) \<le> 1 \<or> history_size (clean_history now ms) \<le> MAX_LOADED_MESSAGES_CHARS)"
proof -
  let ?t = "trimMessages (map (normalizeStoredMessageForLoad now) ms)"
  obtain k where "trimMessagesByContentSize ?t = drop k ?t" using size_trim_suffix by blast
  then have "length (trimMessagesByContentSize ?t) \<le> length ?t" by simp
  also have "\<dots> \<le> MAX_STORED_MESSAGES" by (rule trimMessages_length)
  finally show ?thesis using size_trim_bound [of ?t] by (simp add: clean_history_def)
qed

text \<open>A message that a reload does not touch: it is not pending and none of its texts is long.\<close>

definition settled :: "message \<Rightarrow> bool" where
  "settled m \<longleftrightarrow> \<not> isAssistantMessagePending m
     \<and> (\<forall>v\<in>set (m_versions m). length (v_content v) < MIN_PREFIX_COLLAPSE_LENGTH)
     \<and> (case m_reasoning m of None \<Rightarrow> True | Some r \<Rightarrow> length (r_content r) \<le> MAX_LOADED_MESSAGE_CHARS)"

lemma truncateText_short: "length s \<le> n \<Longrightarrow> truncateText s n = s"
  by (simp add: truncateText_def)

lemma truncateText_length: "length (truncateText s n) \<le> n"
  by (auto simp: truncateText_def slice_def)

lemma normalize_settled: "settled m \<Longrightarrow> normalizeStoredMessageForLoad now m = m"
proof -
  assume s: "settled m"
  have "normalizeVersion v = v" if "v \<in> set (m_versions m)" for v
  proof -
    have "length (v_content v) < MIN_PREFIX_COLLAPSE_LENGTH" using s that by (simp add: settled_def)
    then show ?thesis
      by (simp add: normalizeVersion_def collapseRepeatedSectionSnapshots_def truncateText_short
          MIN_PREFIX_COLLAPSE_LENGTH_def MAX_LOADED_MESSAGE_CHARS_def)
  qed
  then have "map normalizeVersion (m_versions m) = m_versions m" by (simp add: map_idI)
  moreover have "map_option (\<lambda>r. r\<lparr>r_content := truncateText (r_content r) MAX_LOADED_MESSAGE_CHARS\<rparr>) (m_reasoning m) = m_reasoning m"
    using s by (simp add: settled_def truncateText_short split: option.splits)
  ultimately show ?thesis using s by (simp add: normalizeStoredMessageForLoad_def settled_def Let_def)
qed

lemma sanitize_settled: "\<forall>m\<in>set ms. \<not> isAssistantMessagePending m \<Longrightarrow> sanitizeMessagesOnLoad ms = ms"
  by (auto simp: sanitizeMessagesOnLoad_def isPendingAssistantMessage_def split: option.splits dest!: findLastIndex_SomeD)

lemma clean_history_settled:
  assumes "\<forall>m\<in>set ms. settled m" "length ms \<le> MAX_STORED_MESSAGES" "history_size ms \<le> MAX_LOADED_MESSAGES_CHARS"
  shows "clean_history now ms = ms"
proof -
  have "map (normalizeStoredMessageForLoad now) ms = ms" using assms(1) by (simp add: map_idI normalize_settled)
  moreover have "\<forall>m\<in>set ms. \<not> isAssistantMessagePending m" using assms(1) by (simp add: settled_def)
  ultimately show ?thesis using assms(2,3)
    by (simp add: clean_history_def trimMessages_def size_trim_all sanitize_settled)
qed

section \<open>Repeated sections\<close>

lemma section_scan_occurrence:
  "occ \<in> set (section_scan bol i s) \<Longrightarrow>
   i \<le> occ_index occ \<and> startsWith (drop (occ_index occ - i) s) (heading occ)"
proof (induction bol i s rule: section_scan.induct)
  case (2 bol i c cs)
  show ?case
  proof (cases "if bol then match_heading (c # cs) else None")
    case None
    then have "occ \<in> set (section_scan (is_lt c) (Suc i) cs)" using 2(3) by simp
    then have *: "Suc i \<le> occ_index occ" "startsWith (drop (occ_index occ - Suc i) cs) (heading occ)"
      using "2.IH"(1) [OF None] by simp_all
    moreover have "drop (occ_index occ - i) (c # cs) = drop (occ_index occ - Suc i) cs"
      using *(1) by (metis Suc_diff_le diff_Suc_Suc drop_Suc_Cons)
    ultimately show ?thesis by simp
  next
    case (Some n)
    let ?n = "Suc (n - 1)"
    consider "occ = \<lparr>heading = take ?n (c # cs), occ_index = i\<rparr>"
      | "occ \<in> set (section_scan False (i + ?n) (drop (n - 1) cs))"
      using 2(3) Some by auto
    then show ?thesis
    proof cases
      case 1
      then show ?thesis by (simp add: startsWith_def min_def)
    next
      case 2
      then have *: "i + ?n \<le> occ_index occ"
        "startsWith (drop (occ_index occ - (i + ?n)) (drop (n - 1) cs)) (heading occ)"
        using "2.IH"(2) [OF Some] by blast+
      have e: "occ_index occ - i = Suc (occ_index occ - (i + ?n) + (n - 1))" using *(1) by simp
      have "drop (occ_index occ - i) (c # cs) = drop (occ_index occ - (i + ?n)) (drop (n - 1) cs)"
        unfolding e by simp
      with * show ?thesis by simp
    qed
  qed
qed simp

lemma heading_in_text:
  "occ \<in> set (getSectionOccurrences s) \<Longrightarrow> startsWith (drop (occ_index occ) s) (heading occ)"
  using section_scan_occurrence [of occ True 0 s] by (simp add: getSectionOccurrences_def)

definition heading_count :: "jstr \<Rightarrow> jstr \<Rightarrow> nat" where
  "heading_count s h = count_list (map heading (getSectionOccurrences s)) h"

lemma counts_fold:
  "nullish_or (map_get (foldl (\<lambda>counts occ. map_set (heading occ) (nullish_or (map_get counts (heading occ)) 0 + 1) counts) m occs) h) 0
   = nullish_or (map_get m h) 0 + count_list (map heading occs) h"
  by (induction occs arbitrary: m) (auto simp: jm.get_put)

lemma getHeadingCounts_count:
  "nullish_or (map_get (getHeadingCounts occs) h) 0 = count_list (map heading occs) h"
  unfolding getHeadingCounts_def counts_fold by (simp add: jm.get_empty)

lemma ex_find_Cons:
  "(\<exists>h o'. A h \<and> List.find (\<lambda>x. f x = h) (y # ys) = Some o' \<and> B o') \<longleftrightarrow>
   A (f y) \<and> B y \<or> (\<exists>h o'. (A h \<and> h \<noteq> f y) \<and> List.find (\<lambda>x. f x = h) ys = Some o' \<and> B o')"
  (is "?L \<longleftrightarrow> ?R")
proof
  assume ?L
  then obtain h o' where h: "A h" "List.find (\<lambda>x. f x = h) (y # ys) = Some o'" "B o'" by blast
  show ?R
  proof (cases "h = f y")
    case False
    then have "List.find (\<lambda>x. f x = h) ys = Some o'" using h(2) by simp
    with False h show ?thesis by blast
  qed (use h in auto)
next
  assume ?R
  then show ?L
  proof
    assume "A (f y) \<and> B y"
    then show ?L by (intro exI [of _ "f y"] exI [of _ y]) simp
  next
    assume "\<exists>h o'. (A h \<and> h \<noteq> f y) \<and> List.find (\<lambda>x. f x = h) ys = Some o' \<and> B o'"
    then obtain h o' where "A h" "h \<noteq> f y" "List.find (\<lambda>x. f x = h) ys = Some o'" "B o'" by blast
    then show ?L by (intro exI [of _ h] exI [of _ o']) simp
  qed
qed

lemma last_repeated_loop_set:
  "i \<in> set (last_repeated_loop counts occs seen acc) \<longleftrightarrow>
   i \<in> set acc \<or> (\<exists>h occ. (h \<notin> set seen \<and> MIN_REPEATED_SECTION_COUNT \<le> nullish_or (map_get counts h) 0)
     \<and> List.find (\<lambda>o'. heading o' = h) occs = Some occ \<and> i = occ_index occ)"
proof (induction counts occs seen acc rule: last_repeated_loop.induct)
  case (2 counts occ occs seen acc)
  let ?A = "\<lambda>h. h \<notin> set seen \<and> MIN_REPEATED_SECTION_COUNT \<le> nullish_or (map_get counts h) 0"
  show ?case
  proof (cases "nullish_or (map_get counts (heading occ)) 0 < MIN_REPEATED_SECTION_COUNT \<or> heading occ \<in> set seen")
    case True
    then have "\<not> ?A (heading occ)" by auto
    then have "?A h \<and> h \<noteq> heading occ \<longleftrightarrow> ?A h" for h by auto
    with \<open>\<not> ?A (heading occ)\<close> True show ?thesis
      unfolding ex_find_Cons by (simp only: last_repeated_loop.simps if_True "2.IH"(1) [OF True] simp_thms)
  next
    case False
    then have "?A (heading occ)" by auto
    moreover have "?A h \<and> h \<noteq> heading occ \<longleftrightarrow> h \<notin> set (heading occ # seen)
        \<and> MIN_REPEATED_SECTION_COUNT \<le> nullish_or (map_get counts h) 0" for h by auto
    ultimately show ?thesis using False
      unfolding ex_find_Cons
      by (simp only: last_repeated_loop.simps if_False "2.IH"(2) [OF False] simp_thms set_append list.set
          Un_iff insert_iff empty_iff disj_assoc)
  qed
qed simp

text \<open>The last occurrence of a heading.\<close>

definition last_occurrence :: "jstr \<Rightarrow> jstr \<Rightarrow> section_occurrence option" where
  "last_occurrence s h = List.find (\<lambda>occ. heading occ = h) (rev (getSectionOccurrences s))"

lemma last_occurrence_exists: "0 < heading_count s h \<Longrightarrow> last_occurrence s h \<noteq> None"
proof -
  assume "0 < heading_count s h"
  then have "h \<in> set (map heading (getSectionOccurrences s))"
    unfolding heading_count_def by (metis count_list_0_iff less_irrefl)
  then show ?thesis by (auto simp: last_occurrence_def find_None_iff)
qed

lemma repeated_indexes:
  "set (last_repeated_loop (getHeadingCounts (getSectionOccurrences s)) (rev (getSectionOccurrences s)) [] []) =
   {occ_index occ | h occ. 3 \<le> heading_count s h \<and> last_occurrence s h = Some occ}"
proof (rule set_eqI)
  fix i
  show "i \<in> set (last_repeated_loop (getHeadingCounts (getSectionOccurrences s)) (rev (getSectionOccurrences s)) [] [])
    \<longleftrightarrow> i \<in> {occ_index occ | h occ. 3 \<le> heading_count s h \<and> last_occurrence s h = Some occ}"
    unfolding last_repeated_loop_set getHeadingCounts_count heading_count_def [symmetric]
      last_occurrence_def [symmetric] MIN_REPEATED_SECTION_COUNT_def mem_Collect_eq
    by auto
qed

lemma run_start_cases:
  "(findLastRepeatedSectionRunStart s = None \<and> (\<forall>h. heading_count s h < 3))
   \<or> (\<exists>h occ. findLastRepeatedSectionRunStart s = Some (occ_index occ) \<and> 3 \<le> heading_count s h
        \<and> last_occurrence s h = Some occ
        \<and> (\<forall>h' occ'. 3 \<le> heading_count s h' \<longrightarrow> last_occurrence s h' = Some occ' \<longrightarrow> occ_index occ \<le> occ_index occ'))"
proof -
  let ?idx = "last_repeated_loop (getHeadingCounts (getSectionOccurrences s)) (rev (getSectionOccurrences s)) [] []"
  have f: "findLastRepeatedSectionRunStart s = (if ?idx = [] then None else Some (Min (set ?idx)))"
    by (simp add: findLastRepeatedSectionRunStart_def Let_def)
  show ?thesis
  proof (cases "?idx = []")
    case True
    then have e: "{occ_index occ | h occ. 3 \<le> heading_count s h \<and> last_occurrence s h = Some occ} = {}"
      using repeated_indexes [of s] by simp
    have "heading_count s h < 3" for h
    proof (rule ccontr)
      assume "\<not> heading_count s h < 3"
      then have "3 \<le> heading_count s h" "last_occurrence s h \<noteq> None" using last_occurrence_exists [of s h] by auto
      with e show False by blast
    qed
    with True f show ?thesis by simp
  next
    case False
    then have "Min (set ?idx) \<in> set ?idx" by simp
    then obtain h occ where h: "3 \<le> heading_count s h" "last_occurrence s h = Some occ" "Min (set ?idx) = occ_index occ"
      unfolding repeated_indexes by blast
    moreover have "occ_index occ \<le> occ_index occ'" if "3 \<le> heading_count s h'" "last_occurrence s h' = Some occ'" for h' occ'
    proof -
      have "occ_index occ' \<in> set ?idx" unfolding repeated_indexes using that by blast
      then show ?thesis using h(3) Min_le [of "set ?idx"] by (metis List.finite_set)
    qed
    ultimately show ?thesis using False f by auto
  qed
qed

lemma last_occurrence_heading:
  "last_occurrence s h = Some occ \<Longrightarrow> occ \<in> set (getSectionOccurrences s) \<and> heading occ = h"
  unfolding last_occurrence_def by (metis (mono_tags, lifting) find_Some_iff nth_mem set_rev)

text \<open>C29. Collapsing the repeated snapshots of a long reply drops a prefix and nothing else: a reply
  with no numbered heading that occurs three times is kept; otherwise the result starts with such a
  heading, at the last place where that heading stands, and no heading that occurs three times has
  its last section cut off.\<close>

theorem collapse_keeps_last_sections:
  assumes "MIN_PREFIX_COLLAPSE_LENGTH \<le> length s"
  shows "(\<forall>h. heading_count s h < 3) \<and> collapseRepeatedSectionSnapshots s = s
    \<or> (\<exists>h occ. 3 \<le> heading_count s h \<and> last_occurrence s h = Some occ
        \<and> collapseRepeatedSectionSnapshots s = drop (occ_index occ) s
        \<and> startsWith (collapseRepeatedSectionSnapshots s) h
        \<and> (\<forall>h' occ'. 3 \<le> heading_count s h' \<longrightarrow> last_occurrence s h' = Some occ' \<longrightarrow> occ_index occ \<le> occ_index occ'))"
proof -
  have c: "collapseRepeatedSectionSnapshots s = (case findLastRepeatedSectionRunStart s of None \<Rightarrow> s | Some i \<Rightarrow> drop i s)"
    using assms by (simp add: collapseRepeatedSectionSnapshots_def)
  from run_start_cases [of s] show ?thesis
  proof
    assume "findLastRepeatedSectionRunStart s = None \<and> (\<forall>h. heading_count s h < 3)"
    then show ?thesis by (simp add: c)
  next
    assume "\<exists>h occ. findLastRepeatedSectionRunStart s = Some (occ_index occ) \<and> 3 \<le> heading_count s h
        \<and> last_occurrence s h = Some occ
        \<and> (\<forall>h' occ'. 3 \<le> heading_count s h' \<longrightarrow> last_occurrence s h' = Some occ' \<longrightarrow> occ_index occ \<le> occ_index occ')"
    then obtain h occ where o: "findLastRepeatedSectionRunStart s = Some (occ_index occ)" "3 \<le> heading_count s h"
      "last_occurrence s h = Some occ"
      "\<forall>h' occ'. 3 \<le> heading_count s h' \<longrightarrow> last_occurrence s h' = Some occ' \<longrightarrow> occ_index occ \<le> occ_index occ'"
      by blast
    have "startsWith (drop (occ_index occ) s) h"
      using heading_in_text [of occ s] last_occurrence_heading [OF o(3)] by simp
    with o have "3 \<le> heading_count s h \<and> last_occurrence s h = Some occ
        \<and> collapseRepeatedSectionSnapshots s = drop (occ_index occ) s
        \<and> startsWith (collapseRepeatedSectionSnapshots s) h
        \<and> (\<forall>h' occ'. 3 \<le> heading_count s h' \<longrightarrow> last_occurrence s h' = Some occ' \<longrightarrow> occ_index occ \<le> occ_index occ')"
      by (simp add: c)
    then show ?thesis by blast
  qed
qed

theorem collapse_keeps_last_sections_witness:
  "MIN_PREFIX_COLLAPSE_LENGTH \<le> length (replicate 2000 97 :: jstr) \<and>
   (\<exists>k. collapseRepeatedSectionSnapshots (replicate 2000 97) = drop k (replicate 2000 97))"
proof -
  have l: "MIN_PREFIX_COLLAPSE_LENGTH \<le> length (replicate 2000 97 :: jstr)"
    by (simp only: length_replicate MIN_PREFIX_COLLAPSE_LENGTH_def order_refl)
  from collapse_keeps_last_sections [OF l] have "\<exists>k. collapseRepeatedSectionSnapshots (replicate 2000 97) = drop k (replicate 2000 97)"
    by (metis drop0)
  with l show ?thesis by (rule conjI)
qed

section \<open>Saving and loading\<close>

text \<open>C5. A history that was saved comes back after a reload: the last hundred messages, cleaned up;
  the cleaned history never has more than a hundred messages, nor more than the loadable number of
  characters unless it is a single message, and a history of settled messages within these bounds
  comes back unchanged.\<close>

theorem saved_history_comes_back:
  assumes "storage_schemas z"
    and "\<forall>m\<in>set ms. m_versions m \<noteq> []"
    and "serialisable (encode_messages (trimMessages ms))"
    and "writeStoredValue s KEY_MESSAGES (encode_messages (trimMessages ms)) \<noteq> None"
    and "length (stored_text (encode_messages (trimMessages ms))) \<le> MAX_STORED_MESSAGES_BYTES"
  shows "snd (loadMessages z now (saveMessages z s ms)) = Some (clean_history now (trimMessages ms))
    \<and> length (clean_history now (trimMessages ms)) \<le> 100
    \<and> (length (clean_history now (trimMessages ms)) \<le> 1 \<or> history_size (clean_history now (trimMessages ms)) \<le> 120000)
    \<and> ((\<forall>m\<in>set ms. settled m) \<and> length ms \<le> 100 \<and> history_size ms \<le> 120000 \<longrightarrow>
        snd (loadMessages z now (saveMessages z s ms)) = Some ms)"
proof -
  obtain s' where w: "writeStoredValue s KEY_MESSAGES (encode_messages (trimMessages ms)) = Some s'"
    using assms(4) by blast
  have l: "snd (loadMessages z now (saveMessages z s ms)) = Some (clean_history now (trimMessages ms))"
    using storage_schemas.messages_round_trip(1) [OF assms(1,2) w assms(3)] assms(5) by simp
  moreover have "clean_history now (trimMessages ms) = ms"
    if "(\<forall>m\<in>set ms. settled m) \<and> length ms \<le> 100 \<and> history_size ms \<le> 120000"
    using that clean_history_settled [of ms now]
    by (simp add: trimMessages_def MAX_STORED_MESSAGES_def MAX_LOADED_MESSAGES_CHARS_def)
  ultimately show ?thesis using clean_history_bounds [of now "trimMessages ms"]
    by (simp add: MAX_STORED_MESSAGES_def MAX_LOADED_MESSAGES_CHARS_def)
qed

definition demo_message :: message where
  "demo_message = createUserMessage (js ''k1'', js ''v1'') (js ''hi'') 5"

definition demo_storage :: local_storage where
  "demo_storage = \<lparr>items = [], quota = 900\<rparr>"

lemma demo_facts:
  "m_versions demo_message \<noteq> []" "serialisable (encode_messages [demo_message])"
  "writeStoredValue demo_storage KEY_MESSAGES (encode_messages [demo_message]) \<noteq> None"
  "length (stored_text (encode_messages [demo_message])) < 500"
  "trimMessages [demo_message] = [demo_message]"
  by code_simp+

theorem saved_history_comes_back_witness:
  "snd (loadMessages declared_schemas 9 (saveMessages declared_schemas demo_storage [demo_message])) = Some [demo_message]"
proof -
  have l: "length (stored_text (encode_messages [demo_message])) \<le> MAX_STORED_MESSAGES_BYTES"
    using demo_facts(4) by (simp add: MAX_STORED_MESSAGES_BYTES_def)
  have "settled demo_message" "history_size [demo_message] \<le> 120000"
    by (simp_all add: settled_def demo_message_def createUserMessage_def isAssistantMessagePending_def
        createMessageVersion_def MIN_PREFIX_COLLAPSE_LENGTH_def history_size_def getMessageSize_def)
  then show ?thesis
    using saved_history_comes_back [of declared_schemas "[demo_message]" demo_storage 9]
      declared.storage_schemas_axioms demo_facts l by auto
qed

text \<open>C27. A history whose text exceeds the limit is lost: saving stores it, since only the number of
  messages is checked there, and the next load deletes it and returns nothing.\<close>

theorem oversized_history_lost:
  assumes "storage_schemas z"
    and "\<forall>m\<in>set ms. m_versions m \<noteq> []"
    and "serialisable (encode_messages (trimMessages ms))"
    and "writeStoredValue s KEY_MESSAGES (encode_messages (trimMessages ms)) \<noteq> None"
    and "MAX_STORED_MESSAGES_BYTES < length (stored_text (encode_messages (trimMessages ms)))"
  shows "getItem (saveMessages z s ms) KEY_MESSAGES = Some (stored_text (encode_messages (trimMessages ms)))
    \<and> snd (loadMessages z now (saveMessages z s ms)) = None
    \<and> getItem (fst (loadMessages z now (saveMessages z s ms))) KEY_MESSAGES = None"
proof -
  obtain s' where w: "writeStoredValue s KEY_MESSAGES (encode_messages (trimMessages ms)) = Some s'"
    using assms(4) by blast
  show ?thesis
    using storage_schemas.messages_round_trip [OF assms(1,2) w assms(3)] assms(5)
      storage_schemas.saved_messages [OF assms(1,2) w] write_getItem [OF w] by simp
qed

lemma print_chars_length: "length s \<le> length (print_chars s)"
proof (induction s rule: print_chars.induct)
  case (3 c d cs)
  have "1 \<le> length (print_char (surrogate c) c)" by (simp add: print_char_def unicode_escape_def)
  with 3 show ?case by auto
qed (simp_all add: print_char_def unicode_escape_def)

definition long_message :: message where
  "long_message = createUserMessage (js ''k1'', js ''v1'') (replicate (1024 * 1024) 97) 5"

definition long_storage :: local_storage where
  "long_storage = \<lparr>items = [],
     quota = length KEY_MESSAGES + length (stored_text (encode_messages [long_message]))\<rparr>"

lemma long_message_facts:
  "m_versions long_message \<noteq> []" "trimMessages [long_message] = [long_message]"
  "serialisable (encode_messages [long_message])"
  "MAX_STORED_MESSAGES_BYTES < length (stored_text (encode_messages [long_message]))"
  "writeStoredValue long_storage KEY_MESSAGES (encode_messages [long_message]) \<noteq> None"
proof -
  define big :: jstr where "big = replicate (1024 * 1024) 97"
  have b: "code_units big" by (simp add: big_def code_units_def code_unit_def)
  have lb: "length big = MAX_STORED_MESSAGES_BYTES" by (simp add: big_def MAX_STORED_MESSAGES_BYTES_def)
  have m: "long_message = createUserMessage (js ''k1'', js ''v1'') big 5" by (simp add: long_message_def big_def)
  have five: "plain_number 5" by code_simp
  have e: "encode_message long_message = JObj [(js ''key'', JStr (js ''k1'')), (js ''from'', JStr (js ''user'')),
      (js ''versions'', JArr [JObj [(js ''id'', JStr (js ''v1'')), (js ''content'', JStr big)]]), (js ''createdAt'', JNum 5)]"
    by (simp add: m encode_message_def createUserMessage_def createMessageVersion_def encode_version_def
        present_def map_filter_simps)
  show "m_versions long_message \<noteq> []" "trimMessages [long_message] = [long_message]"
    by (simp_all add: m createUserMessage_def trimMessages_def MAX_STORED_MESSAGES_def)
  show "serialisable (encode_messages [long_message])"
    by (simp add: encode_messages_def e five b code_units_def [symmetric])
  show "MAX_STORED_MESSAGES_BYTES < length (stored_text (encode_messages [long_message]))"
    using print_chars_length [of big] lb
    by (simp add: stored_text_def JSON_stringify_def stored_envelope_def encode_messages_def e print_str_def)
  show "writeStoredValue long_storage KEY_MESSAGES (encode_messages [long_message]) \<noteq> None"
    by (simp add: writeStoredValue_def setItem_def long_storage_def used_space_def map_set_def stored_text_def)
qed

theorem oversized_history_lost_witness:
  "getItem (saveMessages declared_schemas long_storage [long_message]) KEY_MESSAGES \<noteq> None
   \<and> snd (loadMessages declared_schemas 9 (saveMessages declared_schemas long_storage [long_message])) = None"
  using oversized_history_lost [of declared_schemas "[long_message]" long_storage 9]
    declared.storage_schemas_axioms long_message_facts by simp

text \<open>A whole configuration, as the settings panel saves it.\<close>

definition full_config :: "playground_config \<Rightarrow> partial_config" where
  "full_config c = \<lparr>p_model = Some (c_model c), p_group = Some (c_group c),
     p_temperature = Some (c_temperature c), p_top_p = Some (c_top_p c), p_max_tokens = Some (c_max_tokens c),
     p_frequency_penalty = Some (c_frequency_penalty c), p_presence_penalty = Some (c_presence_penalty c),
     p_seed = Some (c_seed c), p_stream = Some (c_stream c), p_autoResendEnabled = Some (c_autoResendEnabled c),
     p_autoResendMaxRetries = Some (c_autoResendMaxRetries c)\<rparr>"

lemma spread_full_config [simp]: "spread_config d (full_config c) = c"
  by (simp add: spread_config_def full_config_def)

text \<open>C28. The configuration survives a reload: what was saved is what the next session starts with,
  the other items are untouched, and without any usable item the session starts with the
  defaults.\<close>

theorem config_survives_reload:
  assumes "storage_schemas z" "serialisable (encode_config (full_config c))"
    and "writeStoredValue s KEY_CONFIG (encode_config (full_config c)) \<noteq> None"
  shows "getInitialPlaygroundConfig z (saveConfig z s (full_config c)) = c
    \<and> (\<forall>k. k \<noteq> KEY_CONFIG \<longrightarrow> getItem (saveConfig z s (full_config c)) k = getItem s k)
    \<and> getInitialPlaygroundConfig z (clearPlaygroundData s) = DEFAULT_CONFIG"
proof -
  obtain s' where w: "writeStoredValue s KEY_CONFIG (encode_config (full_config c)) = Some s'"
    using assms(3) by blast
  then have s': "saveConfig z s (full_config c) = s'"
    by (simp add: saveConfig_def storage_schemas.config_accepts [OF assms(1)])
  have "getItem (clearPlaygroundData s) KEY_CONFIG = None"
    by (simp add: clearPlaygroundData_def removeItem_def getItem_def jm.get_rem)
  then have "loadConfig z (clearPlaygroundData s) = empty_config"
    by (simp add: loadConfig_def readStoredValue_def)
  moreover have "spread_config DEFAULT_CONFIG empty_config = DEFAULT_CONFIG"
    by (simp add: spread_config_def empty_config_def)
  ultimately show ?thesis
    using storage_schemas.config_round_trip [OF assms(1,3,2)] write_getItem [OF w]
    by (simp add: getInitialPlaygroundConfig_def s')
qed

theorem config_survives_reload_witness:
  "getInitialPlaygroundConfig declared_schemas
     (saveConfig declared_schemas demo_storage (full_config (DEFAULT_CONFIG\<lparr>c_temperature := 1 / 4, c_max_tokens := 16\<rparr>))) =
   DEFAULT_CONFIG\<lparr>c_temperature := 1 / 4, c_max_tokens := 16\<rparr>"
proof -
  let ?c = "DEFAULT_CONFIG\<lparr>c_temperature := 1 / 4, c_max_tokens := 16\<rparr>"
  have "serialisable (encode_config (full_config ?c))"
    "writeStoredValue demo_storage KEY_CONFIG (encode_config (full_config ?c)) \<noteq> None"
    by code_simp+
  then show ?thesis
    using config_survives_reload [of declared_schemas ?c demo_storage] declared.storage_schemas_axioms by simp
qed

end
