(* ===== verification/PgChat.thy ===== *)
theory PgChat
  imports PgStorage
begin

text \<open>
  The playground as a state machine: the hooks \<open>use-playground-state.ts\<close>,
  \<open>use-stream-request.ts\<close>, \<open>use-chat-handler.ts\<close>, \<open>use-playground-conversation.ts\<close>,
  \<open>use-playground-options.ts\<close> and the reload effect of \<open>index.tsx\<close>. One record holds the React
  state and the refs of the hooks, one definition models each handler, and an event is what the
  user, a timer, the stream or the server does.

  State updates are applied in the order of the calls and a render lies between two events, so a
  handler sees the current messages and the current configuration. The callbacks of a stream and
  of a request keep the configuration of the render that sent it. Notifications are left out. The
  translation function, the schemas, the clock, the generated identifiers and whether a stream can
  be opened come from the environment.
\<close>

section \<open>State\<close>

record sse_source =
  so_config :: playground_config
  so_closed :: bool

record chat =
  messages :: "message list"
  config :: playground_config
  parameterEnabled :: parameter_enabled
  isLoadingMessages :: bool
  models :: "model_option list"
  groups :: "group_option list"
  latestMessages :: "message list"
  hasLoadedMessages :: bool
  messagesSaveTimer :: bool
  storage :: local_storage
  sources :: "sse_source list"
  sseSource :: "nat option"
  isStreamComplete :: bool
  isStreaming :: bool
  isRequesting :: bool
  abortController :: "nat option"
  requestId :: nat
  requests :: "playground_config list"
  abortedRequests :: "nat list"
  pendingContent :: jstr
  pendingReasoning :: jstr
  streamFlushTimer :: bool
  autoResendRetryCount :: int
  autoResendTimer :: "nat option"
  retryTimers :: "nat list"
  nextRetryTimer :: nat
  isAutoResendMode :: bool
  hasTriggeredAutoResend :: bool
  editingMessageKey :: "jstr option"
  sentPayloads :: "chat_completion_request list"

record env =
  translate :: "jstr \<Rightarrow> jstr"
  schema_parsers :: schemas

text \<open>What one event takes from the environment: the clock, generated identifiers, and whether
  \<open>source.stream()\<close> succeeds.\<close>

record occasion =
  o_now :: jsnum
  o_user_ids :: fresh_ids
  o_assistant_ids :: fresh_ids
  o_version_ids :: "nat \<Rightarrow> jstr"
  o_stream_starts :: bool

section \<open>use-playground-state.ts\<close>

definition persistMessages :: "chat \<Rightarrow> message list \<Rightarrow> chat" where
  "persistMessages st messagesToSave =
     (let st = st\<lparr>latestMessages := messagesToSave\<rparr> in
      if \<not> hasLoadedMessages st then st else st\<lparr>messagesSaveTimer := True\<rparr>)"

definition updateMessages :: "chat \<Rightarrow> message_state_updater \<Rightarrow> chat" where
  "updateMessages st updater =
     (let newMessages = applyMessageStateUpdate (messages st) updater in
      persistMessages (st\<lparr>messages := newMessages\<rparr>) newMessages)"

definition saveTimerFires :: "env \<Rightarrow> chat \<Rightarrow> chat" where
  "saveTimerFires env st =
     st\<lparr>messagesSaveTimer := False,
        storage := saveMessages (schema_parsers env) (storage st) (latestMessages st)\<rparr>"

definition loadTimerFires :: "env \<Rightarrow> jsnum \<Rightarrow> chat \<Rightarrow> chat" where
  "loadTimerFires env now st =
     (let (store, loaded) = loadMessages (schema_parsers env) now (storage st);
          loadedMessages = nullish_or loaded [] in
      st\<lparr>storage := store, latestMessages := loadedMessages, hasLoadedMessages := True,
         messages := loadedMessages, isLoadingMessages := False\<rparr>)"

definition unmountState :: "env \<Rightarrow> chat \<Rightarrow> chat" where
  "unmountState env st =
     (if messagesSaveTimer st
      then st\<lparr>messagesSaveTimer := False,
              storage := saveMessages (schema_parsers env) (storage st) (latestMessages st)\<rparr>
      else st)"

datatype config_change =
    SetModel jstr | SetGroup jstr | SetTemperature jsnum | SetTopP jsnum | SetMaxTokens jsnum
  | SetFrequencyPenalty jsnum | SetPresencePenalty jsnum | SetSeed "jsnum option" | SetStream bool
  | SetAutoResendEnabled bool | SetAutoResendMaxRetries jsnum

fun change_config :: "config_change \<Rightarrow> playground_config \<Rightarrow> playground_config" where
  "change_config (SetModel v) c = c\<lparr>c_model := v\<rparr>"
| "change_config (SetGroup v) c = c\<lparr>c_group := v\<rparr>"
| "change_config (SetTemperature v) c = c\<lparr>c_temperature := v\<rparr>"
| "change_config (SetTopP v) c = c\<lparr>c_top_p := v\<rparr>"
| "change_config (SetMaxTokens v) c = c\<lparr>c_max_tokens := v\<rparr>"
| "change_config (SetFrequencyPenalty v) c = c\<lparr>c_frequency_penalty := v\<rparr>"
| "change_config (SetPresencePenalty v) c = c\<lparr>c_presence_penalty := v\<rparr>"
| "change_config (SetSeed v) c = c\<lparr>c_seed := v\<rparr>"
| "change_config (SetStream v) c = c\<lparr>c_stream := v\<rparr>"
| "change_config (SetAutoResendEnabled v) c = c\<lparr>c_autoResendEnabled := v\<rparr>"
| "change_config (SetAutoResendMaxRetries v) c = c\<lparr>c_autoResendMaxRetries := v\<rparr>"

definition updateConfig :: "env \<Rightarrow> chat \<Rightarrow> config_change \<Rightarrow> chat" where
  "updateConfig env st change =
     (let updated = change_config change (config st) in
      st\<lparr>config := updated, storage := saveConfig (schema_parsers env) (storage st) (full_config updated)\<rparr>)"

fun change_enabled :: "parameter_key \<Rightarrow> bool \<Rightarrow> parameter_enabled \<Rightarrow> parameter_enabled" where
  "change_enabled Temperature b e = e\<lparr>e_temperature := b\<rparr>"
| "change_enabled Top_p b e = e\<lparr>e_top_p := b\<rparr>"
| "change_enabled Max_tokens b e = e\<lparr>e_max_tokens := b\<rparr>"
| "change_enabled Frequency_penalty b e = e\<lparr>e_frequency_penalty := b\<rparr>"
| "change_enabled Presence_penalty b e = e\<lparr>e_presence_penalty := b\<rparr>"
| "change_enabled Seed b e = e\<lparr>e_seed := b\<rparr>"

definition full_enabled :: "parameter_enabled \<Rightarrow> partial_enabled" where
  "full_enabled e = \<lparr>pe_temperature = Some (e_temperature e), pe_top_p = Some (e_top_p e),
     pe_max_tokens = Some (e_max_tokens e), pe_frequency_penalty = Some (e_frequency_penalty e),
     pe_presence_penalty = Some (e_presence_penalty e), pe_seed = Some (e_seed e)\<rparr>"

definition updateParameterEnabled :: "env \<Rightarrow> chat \<Rightarrow> parameter_key \<Rightarrow> bool \<Rightarrow> chat" where
  "updateParameterEnabled env st key value =
     (let updated = change_enabled key value (parameterEnabled st) in
      st\<lparr>parameterEnabled := updated,
         storage := saveParameterEnabled (schema_parsers env) (storage st) (full_enabled updated)\<rparr>)"

definition clearMessages :: "chat \<Rightarrow> chat" where
  "clearMessages st = updateMessages st (SetMessages [])"

definition resetConfig :: "env \<Rightarrow> chat \<Rightarrow> chat" where
  "resetConfig env st =
     (let store = saveConfig (schema_parsers env) (storage st) (full_config DEFAULT_CONFIG) in
      st\<lparr>config := DEFAULT_CONFIG, parameterEnabled := DEFAULT_PARAMETER_ENABLED,
         storage := saveParameterEnabled (schema_parsers env) store (full_enabled DEFAULT_PARAMETER_ENABLED)\<rparr>)"

section \<open>use-stream-request.ts, closing\<close>

definition close_source :: "nat option \<Rightarrow> chat \<Rightarrow> chat" where
  "close_source src st =
     (case src of
        None \<Rightarrow> st
      | Some i \<Rightarrow> st\<lparr>sources := (sources st)[i := (sources st ! i)\<lparr>so_closed := True\<rparr>]\<rparr>)"

definition closeActiveStream :: "chat \<Rightarrow> nat option \<Rightarrow> chat" where
  "closeActiveStream st src =
     (let streamSource = nullish src (sseSource st);
          st = close_source streamSource st in
      if src = None \<or> sseSource st = src then st\<lparr>sseSource := None, isStreaming := False\<rparr> else st)"

definition stopStream :: "chat \<Rightarrow> chat" where
  "stopStream st = closeActiveStream st None"

section \<open>use-chat-handler.ts, buffering\<close>

definition mergePendingStreamChunk :: "jstr \<Rightarrow> jstr \<Rightarrow> jstr" where
  "mergePendingStreamChunk currentChunk nextChunk =
     (if currentChunk = [] \<or> \<not> startsWith nextChunk currentChunk then currentChunk @ nextChunk else nextChunk)"

definition apply_pending :: "jsnum \<Rightarrow> jstr \<Rightarrow> jstr \<Rightarrow> message \<Rightarrow> message" where
  "apply_pending now reasoning content m =
     (let m = (if reasoning \<noteq> [] then applyStreamingChunk now m ChunkReasoning reasoning else m) in
      if content \<noteq> [] then applyStreamingChunk now m ChunkContent content else m)"

definition flushStreamUpdates :: "jsnum \<Rightarrow> chat \<Rightarrow> chat" where
  "flushStreamUpdates now st =
     (let st = st\<lparr>streamFlushTimer := False\<rparr>;
          reasoning = pendingReasoning st; content = pendingContent st in
      if reasoning = [] \<and> content = [] then st
      else updateMessages (st\<lparr>pendingContent := [], pendingReasoning := []\<rparr>)
        (UpdateMessages (\<lambda>prev. updateLastAssistantMessage prev (apply_pending now reasoning content))))"

definition scheduleStreamFlush :: "chat \<Rightarrow> chat" where
  "scheduleStreamFlush st = st\<lparr>streamFlushTimer := True\<rparr>"

text \<open>The ref keeps the handle of the retry timer that was armed last; \<open>retryTimers\<close> are the timers
  that will still fire.\<close>

definition clearAutoResendTimer :: "chat \<Rightarrow> chat" where
  "clearAutoResendTimer st =
     (case autoResendTimer st of
        None \<Rightarrow> st
      | Some timer \<Rightarrow> st\<lparr>autoResendTimer := None, retryTimers := removeAll timer (retryTimers st)\<rparr>)"

definition exitAutoResendMode :: "chat \<Rightarrow> chat" where
  "exitAutoResendMode st = (clearAutoResendTimer st)\<lparr>isAutoResendMode := False, autoResendRetryCount := -1\<rparr>"

definition KNOWN_ERROR_MESSAGES :: "jstr list" where
  "KNOWN_ERROR_MESSAGES = [API_REQUEST_ERROR, NETWORK_ERROR, PARSE_ERROR, STREAM_START_ERROR,
     CONNECTION_CLOSED, INTERRUPTED]"

definition getDisplayError :: "(jstr \<Rightarrow> jstr) \<Rightarrow> jstr \<Rightarrow> jstr" where
  "getDisplayError t error =
     (if error \<in> set KNOWN_ERROR_MESSAGES then t error
      else
        (let connectionClosedSuffix = js '': '' @ CONNECTION_CLOSED in
         if endsWith error connectionClosedSuffix
         then slice error 0 (length error - length CONNECTION_CLOSED) @ t CONNECTION_CLOSED
         else error))"

fun handleStreamUpdate :: "chat \<Rightarrow> stream_chunk_type \<Rightarrow> jstr \<Rightarrow> chat" where
  "handleStreamUpdate st ChunkContent chunk =
     scheduleStreamFlush (st\<lparr>pendingContent := mergePendingStreamChunk (pendingContent st) chunk\<rparr>)"
| "handleStreamUpdate st ChunkReasoning chunk =
     scheduleStreamFlush (st\<lparr>pendingReasoning := mergePendingStreamChunk (pendingReasoning st) chunk\<rparr>)"

definition complete_unless_final :: "jsnum \<Rightarrow> message \<Rightarrow> message" where
  "complete_unless_final now m =
     (if isAssistantMessageFinal m \<and> \<not> truthy (m_pendingAutoResend m) then m
      else (completeAssistantMessage now m)\<lparr>m_pendingAutoResend := None\<rparr>)"

definition handleStreamComplete :: "jsnum \<Rightarrow> chat \<Rightarrow> chat" where
  "handleStreamComplete now st =
     (let st = flushStreamUpdates now st;
          st = exitAutoResendMode st;
          st = st\<lparr>isRequesting := False\<rparr> in
      updateMessages st (UpdateMessages (\<lambda>prev. updateLastAssistantMessage prev (complete_unless_final now))))"

definition handleStreamError ::
  "env \<Rightarrow> jsnum \<Rightarrow> playground_config \<Rightarrow> chat \<Rightarrow> jstr \<Rightarrow> jstr option \<Rightarrow> chat" where
  "handleStreamError env now cfg st error errorCode =
     (let st = flushStreamUpdates now st;
          decision = decideAutoResend
            \<lparr>a_isAutoResendMode = isAutoResendMode st, a_autoResendEnabled = c_autoResendEnabled cfg,
             a_retryCount = autoResendRetryCount st, a_maxRetries = c_autoResendMaxRetries cfg\<rparr> in
      if shouldRetry decision
      then st\<lparr>autoResendRetryCount := autoResendRetryCount st + 1,
              autoResendTimer := Some (nextRetryTimer st),
              retryTimers := nextRetryTimer st # retryTimers st, nextRetryTimer := nextRetryTimer st + 1\<rparr>
      else
        (let st = exitAutoResendMode st;
             st = st\<lparr>isRequesting := False\<rparr>;
             displayError = getDisplayError (translate env) error;
             errorTitle = translate env API_REQUEST_ERROR in
         updateMessages st
           (UpdateMessages (\<lambda>prev. updateAssistantMessageWithError now prev displayError errorCode errorTitle))))"

section \<open>use-stream-request.ts, sending and events\<close>

definition sendStreamRequest ::
  "env \<Rightarrow> jsnum \<Rightarrow> bool \<Rightarrow> chat \<Rightarrow> chat_completion_request \<Rightarrow> playground_config \<Rightarrow> chat" where
  "sendStreamRequest env now starts st payload cfg =
     (let st = close_source (sseSource st) st;
          source = length (sources st);
          st = st\<lparr>sources := sources st @ [\<lparr>so_config = cfg, so_closed = False\<rparr>], sseSource := Some source,
                  isStreamComplete := False, isStreaming := True, sentPayloads := sentPayloads st @ [payload]\<rparr> in
      if starts then st
      else closeActiveStream (handleStreamError env now cfg st STREAM_START_ERROR None) (Some source))"

definition handleError ::
  "env \<Rightarrow> jsnum \<Rightarrow> nat \<Rightarrow> chat \<Rightarrow> jstr \<Rightarrow> jstr option \<Rightarrow> chat" where
  "handleError env now source st errorMessage errorCode =
     (if \<not> isStreamComplete st
      then closeActiveStream
        (handleStreamError env now (so_config (sources st ! source)) st errorMessage errorCode) (Some source)
      else st)"

definition onStreamMessage :: "env \<Rightarrow> jsnum \<Rightarrow> nat \<Rightarrow> chat \<Rightarrow> jstr \<Rightarrow> chat" where
  "onStreamMessage env now source st data =
     (if isStreamDoneMessage data
      then handleStreamComplete now (closeActiveStream (st\<lparr>isStreamComplete := True\<rparr>) (Some source))
      else case parseStreamMessageUpdates data of
        None \<Rightarrow> handleError env now source st PARSE_ERROR None
      | Some updates \<Rightarrow> foldl (\<lambda>st update. handleStreamUpdate st (u_type update) (u_chunk update)) st updates)"

definition onStreamError :: "env \<Rightarrow> jsnum \<Rightarrow> nat \<Rightarrow> chat \<Rightarrow> jsnum option \<Rightarrow> jstr option \<Rightarrow> chat" where
  "onStreamError env now source st sourceReadyState data =
     (if \<not> isStreamClosedReadyState sourceReadyState
      then
        (let details = parseStreamErrorDetails data in
         handleError env now source st (d_errorMessage details) (d_errorCode details))
      else st)"

definition onStreamReadyState :: "env \<Rightarrow> jsnum \<Rightarrow> nat \<Rightarrow> chat \<Rightarrow> jsnum option \<Rightarrow> jsnum option \<Rightarrow> chat" where
  "onStreamReadyState env now source st eventReadyState status =
     (case getStreamReadyStateError eventReadyState status of
        None \<Rightarrow> st
      | Some errorMessage \<Rightarrow> (if errorMessage = [] then st else handleError env now source st errorMessage None))"

section \<open>use-chat-handler.ts, sending\<close>

definition sendStreamingChat :: "env \<Rightarrow> jsnum \<Rightarrow> bool \<Rightarrow> chat \<Rightarrow> message list \<Rightarrow> chat" where
  "sendStreamingChat env now starts st ms =
     (let st = st\<lparr>isRequesting := True\<rparr>;
          payload = buildChatCompletionPayload ms (config st) (parameterEnabled st) in
      sendStreamRequest env now starts st payload (config st))"

definition sendNonStreamingChat :: "chat \<Rightarrow> message list \<Rightarrow> chat" where
  "sendNonStreamingChat st ms =
     (let payload = buildChatCompletionPayload ms (config st) (parameterEnabled st);
          request = requestId st + 1 in
      st\<lparr>requestId := request, abortController := Some request, isRequesting := True,
         requests := requests st @ [config st], sentPayloads := sentPayloads st @ [payload]\<rparr>)"

datatype request_outcome = Responded chat_completion_response | Failed "request_error_like option"

text \<open>The continuation of \<open>sendNonStreamingChat\<close> after the request: the \<open>try\<close> block, then the
  \<open>finally\<close> block. Request \<open>n\<close> kept the configuration at index \<open>n - 1\<close>.\<close>

definition response_body :: "env \<Rightarrow> jsnum \<Rightarrow> chat \<Rightarrow> nat \<Rightarrow> request_outcome \<Rightarrow> chat" where
  "response_body env now st request outcome =
     (let cfg = requests st ! (request - 1) in
      if request \<in> set (abortedRequests st) then st
      else case outcome of
        Responded response \<Rightarrow>
          (if \<not> hasChatCompletionChoice response
           then handleStreamError env now cfg st API_REQUEST_ERROR None
           else updateMessages st (UpdateMessages (\<lambda>prev. updateLastAssistantMessage prev
             (\<lambda>m. nullish_or (applyChatCompletionResponse now m response) m))))
      | Failed error \<Rightarrow>
          (let details = parseRequestErrorDetails error in
           handleStreamError env now cfg st (d_errorMessage details) (d_errorCode details)))"

definition onResponse :: "env \<Rightarrow> jsnum \<Rightarrow> chat \<Rightarrow> nat \<Rightarrow> request_outcome \<Rightarrow> chat" where
  "onResponse env now st request outcome =
     (let st = response_body env now st request outcome in
      if requestId st = request then st\<lparr>abortController := None, isRequesting := False\<rparr> else st)"

definition sendChat :: "env \<Rightarrow> jsnum \<Rightarrow> bool \<Rightarrow> chat \<Rightarrow> message list \<Rightarrow> chat" where
  "sendChat env now starts st ms =
     (let st = clearAutoResendTimer st;
          st = (if \<not> (\<exists>m\<in>set ms. truthy (m_pendingAutoResend m))
                then st\<lparr>isAutoResendMode := False, autoResendRetryCount := -1\<rparr> else st) in
      if c_stream (config st) then sendStreamingChat env now starts st ms else sendNonStreamingChat st ms)"

definition complete_if_pending :: "jsnum \<Rightarrow> message \<Rightarrow> message" where
  "complete_if_pending now m =
     (if \<not> isAssistantMessagePending m then m
      else (completeAssistantMessage now m)\<lparr>m_pendingAutoResend := None\<rparr>)"

definition abort_request :: "chat \<Rightarrow> chat" where
  "abort_request st =
     (case abortController st of
        None \<Rightarrow> st
      | Some request \<Rightarrow> st\<lparr>abortedRequests := request # abortedRequests st, abortController := None\<rparr>)"

definition stopGeneration :: "jsnum \<Rightarrow> chat \<Rightarrow> chat" where
  "stopGeneration now st =
     (let st = stopStream st;
          st = exitAutoResendMode st;
          st = flushStreamUpdates now st;
          st = abort_request st;
          st = st\<lparr>isRequesting := False\<rparr> in
      updateMessages st (UpdateMessages (\<lambda>prev. updateLastAssistantMessage prev (complete_if_pending now))))"

definition reset_pending :: "(nat \<Rightarrow> jstr) \<Rightarrow> message list \<Rightarrow> message list" where
  "reset_pending nids ms =
     map (\<lambda>(i, m). if truthy (m_pendingAutoResend m) then resetPendingMessageForRetry (nids i) m else m)
       (enumerate 0 ms)"

definition retryTimerFires :: "env \<Rightarrow> occasion \<Rightarrow> chat \<Rightarrow> nat \<Rightarrow> chat" where
  "retryTimerFires env oc st timer =
     (let st = st\<lparr>autoResendTimer := None, retryTimers := removeAll timer (retryTimers st)\<rparr>;
          resetMessages = reset_pending (o_version_ids oc) (messages st);
          st = updateMessages st (UpdateMessages (\<lambda>_. resetMessages)) in
      sendChat env (o_now oc) (o_stream_starts oc) st resetMessages)"

definition triggerAutoResend :: "env \<Rightarrow> occasion \<Rightarrow> chat \<Rightarrow> message list \<Rightarrow> chat" where
  "triggerAutoResend env oc st ms =
     (if \<not> hasPendingAutoResend ms then st
      else
        (let resetMessages = reset_pending (o_version_ids oc) ms;
             st = updateMessages st (UpdateMessages (\<lambda>_. resetMessages));
             st = st\<lparr>isAutoResendMode := True, autoResendRetryCount := 0\<rparr> in
         sendChat env (o_now oc) (o_stream_starts oc) st resetMessages))"

text \<open>When the component goes away, its timers are cleared and an outstanding save is made.\<close>

definition unmountChat :: "chat \<Rightarrow> chat" where
  "unmountChat st = clearAutoResendTimer (st\<lparr>streamFlushTimer := False\<rparr>)"

definition unmount :: "env \<Rightarrow> chat \<Rightarrow> chat" where
  "unmount env st = unmountState env (unmountChat st)"

definition isGenerating :: "chat \<Rightarrow> bool" where
  "isGenerating st \<longleftrightarrow> isStreaming st \<or> isRequesting st"

section \<open>index.tsx\<close>

text \<open>The last message as an error, when the feature is off; a stored message has a version.\<close>

definition mark_interrupted :: "(jstr \<Rightarrow> jstr) \<Rightarrow> message \<Rightarrow> message" where
  "mark_interrupted t m =
     m\<lparr>m_pendingAutoResend := None, m_status := Some StError,
       m_versions := [(getCurrentVersion m)\<lparr>v_content := t API_REQUEST_ERROR @ js '': '' @ t INTERRUPTED\<rparr>]\<rparr>"

definition mark_last_interrupted :: "(jstr \<Rightarrow> jstr) \<Rightarrow> message list \<Rightarrow> message list" where
  "mark_last_interrupted t prev =
     map (\<lambda>(i, m). if i = length prev - 1 \<and> truthy (m_pendingAutoResend m) then mark_interrupted t m else m)
       (enumerate 0 prev)"

definition autoResendEffect :: "env \<Rightarrow> occasion \<Rightarrow> chat \<Rightarrow> chat" where
  "autoResendEffect env oc st =
     (if isLoadingMessages st \<or> hasTriggeredAutoResend st then st
      else if \<not> hasPendingAutoResend (messages st) then st
      else
        (let st = st\<lparr>hasTriggeredAutoResend := True\<rparr> in
         if \<not> c_autoResendEnabled (config st)
         then updateMessages st (UpdateMessages (mark_last_interrupted (translate env)))
         else triggerAutoResend env oc st (messages st)))"

section \<open>use-playground-conversation.ts\<close>

definition handleSendMessage :: "env \<Rightarrow> occasion \<Rightarrow> chat \<Rightarrow> jstr \<Rightarrow> chat" where
  "handleSendMessage env oc st content =
     (let nextMessages = appendUserMessagePair (o_now oc) (o_user_ids oc) (o_assistant_ids oc) (messages st) content;
          st = updateMessages st (SetMessages nextMessages) in
      sendChat env (o_now oc) (o_stream_starts oc) st nextMessages)"

definition handleRegenerateMessage :: "env \<Rightarrow> occasion \<Rightarrow> chat \<Rightarrow> jstr \<Rightarrow> chat" where
  "handleRegenerateMessage env oc st key =
     (case createRegeneratedMessages (o_now oc) (o_assistant_ids oc) (messages st) key of
        None \<Rightarrow> st
      | Some nextMessages \<Rightarrow>
          sendChat env (o_now oc) (o_stream_starts oc) (updateMessages st (SetMessages nextMessages)) nextMessages)"

definition handleEditMessage :: "chat \<Rightarrow> jstr \<Rightarrow> chat" where
  "handleEditMessage st key = st\<lparr>editingMessageKey := Some key\<rparr>"

definition handleEditOpenChange :: "chat \<Rightarrow> bool \<Rightarrow> chat" where
  "handleEditOpenChange st isOpen = (if \<not> isOpen then st\<lparr>editingMessageKey := None\<rparr> else st)"

definition applyEdit :: "env \<Rightarrow> occasion \<Rightarrow> chat \<Rightarrow> jstr \<Rightarrow> bool \<Rightarrow> chat" where
  "applyEdit env oc st newContent shouldSubmit =
     (if opt_str (editingMessageKey st) = [] then st
      else case applyMessageEdit (o_now oc) (o_assistant_ids oc) (messages st)
          (opt_str (editingMessageKey st)) newContent shouldSubmit of
        None \<Rightarrow> st
      | Some editResult \<Rightarrow>
          (let st = st\<lparr>editingMessageKey := None\<rparr>;
               st = updateMessages st (SetMessages (er_messages editResult)) in
           if er_shouldSend editResult
           then sendChat env (o_now oc) (o_stream_starts oc) st (er_messages editResult) else st))"

definition handleDeleteMessage :: "chat \<Rightarrow> jstr \<Rightarrow> chat" where
  "handleDeleteMessage st key = updateMessages st (UpdateMessages (\<lambda>prev. removeMessageByKey prev key))"

definition handleClearMessages :: "chat \<Rightarrow> chat" where
  "handleClearMessages st = clearMessages (handleEditOpenChange st False)"

section \<open>use-playground-options.ts\<close>

definition modelsEffect :: "env \<Rightarrow> chat \<Rightarrow> model_option list \<Rightarrow> chat" where
  "modelsEffect env st modelsData =
     (let currentModel = c_model (config st);
          st = st\<lparr>models := modelsData\<rparr> in
      case getModelFallback modelsData currentModel of
        Some fallback \<Rightarrow>
          (if fallback \<noteq> [] then updateConfig env st (SetModel fallback)
           else if shouldClearModelForGroup modelsData currentModel then updateConfig env st (SetModel []) else st)
      | None \<Rightarrow>
          (if shouldClearModelForGroup modelsData currentModel then updateConfig env st (SetModel []) else st))"

definition groupsEffect :: "env \<Rightarrow> chat \<Rightarrow> group_option list \<Rightarrow> chat" where
  "groupsEffect env st groupsData =
     (let currentGroup = c_group (config st);
          st = st\<lparr>groups := groupsData\<rparr> in
      case getGroupFallback groupsData currentGroup of
        Some fallback \<Rightarrow> (if fallback \<noteq> [] then updateConfig env st (SetGroup fallback) else st)
      | None \<Rightarrow> st)"

section \<open>Events\<close>

datatype chat_event =
    EvLoad | EvSaveTimer | EvReloadEffect
  | EvSend jstr | EvRegenerate jstr | EvEditOpen jstr | EvEditOpenChange bool | EvApplyEdit jstr bool
  | EvDelete jstr | EvClear | EvStop
  | EvStreamMessage nat jstr | EvStreamError nat "jsnum option" "jstr option"
  | EvStreamReadyState nat "jsnum option" "jsnum option"
  | EvFlushTimer | EvRetryTimer nat | EvResponse nat request_outcome
  | EvConfig config_change | EvEnabled parameter_key bool | EvResetConfig
  | EvModels "model_option list" | EvGroups "group_option list"

fun handle :: "env \<Rightarrow> occasion \<Rightarrow> chat \<Rightarrow> chat_event \<Rightarrow> chat" where
  "handle env oc st EvLoad = loadTimerFires env (o_now oc) st"
| "handle env oc st EvSaveTimer = saveTimerFires env st"
| "handle env oc st EvReloadEffect = autoResendEffect env oc st"
| "handle env oc st (EvSend content) = handleSendMessage env oc st content"
| "handle env oc st (EvRegenerate key) = handleRegenerateMessage env oc st key"
| "handle env oc st (EvEditOpen key) = handleEditMessage st key"
| "handle env oc st (EvEditOpenChange b) = handleEditOpenChange st b"
| "handle env oc st (EvApplyEdit content submit) = applyEdit env oc st content submit"
| "handle env oc st (EvDelete key) = handleDeleteMessage st key"
| "handle env oc st EvClear = handleClearMessages st"
| "handle env oc st EvStop = stopGeneration (o_now oc) st"
| "handle env oc st (EvStreamMessage src data) = onStreamMessage env (o_now oc) src st data"
| "handle env oc st (EvStreamError src r data) = onStreamError env (o_now oc) src st r data"
| "handle env oc st (EvStreamReadyState src r status) = onStreamReadyState env (o_now oc) src st r status"
| "handle env oc st EvFlushTimer = flushStreamUpdates (o_now oc) st"
| "handle env oc st (EvRetryTimer timer) = retryTimerFires env oc st timer"
| "handle env oc st (EvResponse request outcome) = onResponse env (o_now oc) st request outcome"
| "handle env oc st (EvConfig change) = updateConfig env st change"
| "handle env oc st (EvEnabled key b) = updateParameterEnabled env st key b"
| "handle env oc st EvResetConfig = resetConfig env st"
| "handle env oc st (EvModels ms) = modelsEffect env st ms"
| "handle env oc st (EvGroups gs) = groupsEffect env st gs"

text \<open>A timer event needs its timer, and the stream and the server only answer what was sent.\<close>

fun possible :: "chat \<Rightarrow> chat_event \<Rightarrow> bool" where
  "possible st EvSaveTimer = messagesSaveTimer st"
| "possible st EvFlushTimer = streamFlushTimer st"
| "possible st (EvRetryTimer timer) = (timer \<in> set (retryTimers st))"
| "possible st (EvStreamMessage src _) = (src < length (sources st))"
| "possible st (EvStreamError src _ _) = (src < length (sources st))"
| "possible st (EvStreamReadyState src _ _) = (src < length (sources st))"
| "possible st (EvResponse request _) = (1 \<le> request \<and> request \<le> requestId st)"
| "possible st _ = True"

inductive chat_step :: "env \<Rightarrow> chat \<Rightarrow> chat \<Rightarrow> bool" for env where
  occurs: "possible st e \<Longrightarrow> chat_step env st (handle env oc st e)"

definition init_chat :: "env \<Rightarrow> local_storage \<Rightarrow> chat" where
  "init_chat env store =
     \<lparr>messages = [], config = getInitialPlaygroundConfig (schema_parsers env) store,
      parameterEnabled = getInitialParameterEnabled (schema_parsers env) store,
      isLoadingMessages = True, models = [], groups = [], latestMessages = [], hasLoadedMessages = False,
      messagesSaveTimer = False, storage = store, sources = [], sseSource = None, isStreamComplete = False,
      isStreaming = False, isRequesting = False, abortController = None, requestId = 0, requests = [],
      abortedRequests = [], pendingContent = [], pendingReasoning = [], streamFlushTimer = False,
      autoResendRetryCount = -1, autoResendTimer = None, retryTimers = [], nextRetryTimer = 0, isAutoResendMode = False,
      hasTriggeredAutoResend = False, editingMessageKey = None, sentPayloads = []\<rparr>"

section \<open>The invariant of the chat\<close>

definition stream_ok :: "chat \<Rightarrow> bool" where
  "stream_ok st \<longleftrightarrow> (isStreaming st \<longleftrightarrow> sseSource st \<noteq> None)
     \<and> (\<forall>i. sseSource st = Some i \<longrightarrow> i < length (sources st) \<and> \<not> so_closed (sources st ! i))"

definition retry_ok :: "chat \<Rightarrow> bool" where
  "retry_ok st \<longleftrightarrow> -1 \<le> autoResendRetryCount st \<and> (isAutoResendMode st \<longleftrightarrow> 0 \<le> autoResendRetryCount st)
     \<and> (\<forall>k. autoResendTimer st = Some k \<longrightarrow> k \<in> set (retryTimers st))
     \<and> (\<forall>k\<in>set (retryTimers st). k < nextRetryTimer st)"

definition buffer_ok :: "chat \<Rightarrow> bool" where
  "buffer_ok st \<longleftrightarrow> (pendingContent st \<noteq> [] \<or> pendingReasoning st \<noteq> [] \<longrightarrow> streamFlushTimer st)"

definition save_ok :: "chat \<Rightarrow> bool" where
  "save_ok st \<longleftrightarrow> latestMessages st = messages st \<and> (messagesSaveTimer st \<longrightarrow> hasLoadedMessages st)"

definition request_ok :: "chat \<Rightarrow> bool" where
  "request_ok st \<longleftrightarrow> length (requests st) = requestId st \<and> (\<forall>r. abortController st = Some r \<longrightarrow> r = requestId st)"

definition chat_ok :: "chat \<Rightarrow> bool" where
  "chat_ok st \<longleftrightarrow> stream_ok st \<and> retry_ok st \<and> buffer_ok st \<and> save_ok st \<and> request_ok st"

lemmas chat_ok_defs = chat_ok_def stream_ok_def retry_ok_def buffer_ok_def save_ok_def request_ok_def

lemma chat_ok_frame [simp]:
  "chat_ok (st\<lparr>isRequesting := b\<rparr>) = chat_ok st"
  "chat_ok (st\<lparr>isStreamComplete := b\<rparr>) = chat_ok st"
  "chat_ok (st\<lparr>editingMessageKey := k\<rparr>) = chat_ok st"
  "chat_ok (st\<lparr>hasTriggeredAutoResend := b\<rparr>) = chat_ok st"
  "chat_ok (st\<lparr>models := ms\<rparr>) = chat_ok st"
  "chat_ok (st\<lparr>groups := gs\<rparr>) = chat_ok st"
  "chat_ok (st\<lparr>config := c\<rparr>) = chat_ok st"
  "chat_ok (st\<lparr>storage := l\<rparr>) = chat_ok st"
  "chat_ok (st\<lparr>parameterEnabled := e\<rparr>) = chat_ok st"
  "chat_ok (st\<lparr>sentPayloads := p\<rparr>) = chat_ok st"
  by (simp_all add: chat_ok_defs)

lemma updateMessages_ok [simp]: "chat_ok st \<Longrightarrow> chat_ok (updateMessages st u)"
  by (auto simp: updateMessages_def persistMessages_def chat_ok_defs Let_def)

lemma flushStreamUpdates_ok [simp]: "chat_ok st \<Longrightarrow> chat_ok (flushStreamUpdates now st)"
  by (auto simp: flushStreamUpdates_def Let_def chat_ok_defs updateMessages_def persistMessages_def)

lemma clearAutoResendTimer_ok [simp]: "chat_ok st \<Longrightarrow> chat_ok (clearAutoResendTimer st)"
  by (auto simp: clearAutoResendTimer_def chat_ok_defs split: option.split)

lemma leave_mode_ok: "chat_ok st \<Longrightarrow> chat_ok (st\<lparr>isAutoResendMode := False, autoResendRetryCount := -1\<rparr>)"
  by (simp add: chat_ok_defs)

lemma enter_mode_ok: "chat_ok st \<Longrightarrow> chat_ok (st\<lparr>isAutoResendMode := True, autoResendRetryCount := 0\<rparr>)"
  by (simp add: chat_ok_defs)

lemma exitAutoResendMode_ok [simp]: "chat_ok st \<Longrightarrow> chat_ok (exitAutoResendMode st)"
  by (simp add: exitAutoResendMode_def leave_mode_ok)

lemma close_source_frame [simp]:
  "retry_ok (close_source x st) = retry_ok st" "buffer_ok (close_source x st) = buffer_ok st"
  "save_ok (close_source x st) = save_ok st" "request_ok (close_source x st) = request_ok st"
  "sseSource (close_source x st) = sseSource st" "isStreaming (close_source x st) = isStreaming st"
  "length (sources (close_source x st)) = length (sources st)"
  by (simp_all add: close_source_def retry_ok_def buffer_ok_def save_ok_def request_ok_def split: option.split)

lemma stream_off_frame [simp]:
  "retry_ok (st\<lparr>sseSource := x, isStreaming := b\<rparr>) = retry_ok st"
  "buffer_ok (st\<lparr>sseSource := x, isStreaming := b\<rparr>) = buffer_ok st"
  "save_ok (st\<lparr>sseSource := x, isStreaming := b\<rparr>) = save_ok st"
  "request_ok (st\<lparr>sseSource := x, isStreaming := b\<rparr>) = request_ok st"
  "stream_ok (st\<lparr>sseSource := None, isStreaming := False\<rparr>)"
  by (simp_all add: retry_ok_def buffer_ok_def save_ok_def request_ok_def stream_ok_def)

lemma close_other_source: "stream_ok st \<Longrightarrow> sseSource st \<noteq> Some i \<Longrightarrow> stream_ok (close_source (Some i) st)"
  by (auto simp: stream_ok_def close_source_def nth_list_update)

lemma closeActiveStream_ok [simp]: "chat_ok st \<Longrightarrow> chat_ok (closeActiveStream st src)"
  by (cases src) (simp_all add: closeActiveStream_def chat_ok_def close_other_source Let_def)

lemma handleStreamUpdate_ok [simp]: "chat_ok st \<Longrightarrow> chat_ok (handleStreamUpdate st ty c)"
  by (cases ty) (simp_all add: scheduleStreamFlush_def chat_ok_defs)

lemma handleStreamComplete_ok [simp]: "chat_ok st \<Longrightarrow> chat_ok (handleStreamComplete now st)"
  by (simp add: handleStreamComplete_def Let_def)

lemma retry_scheduled_ok:
  "chat_ok st \<Longrightarrow> isAutoResendMode st \<Longrightarrow>
   chat_ok (st\<lparr>autoResendRetryCount := autoResendRetryCount st + 1, autoResendTimer := Some (nextRetryTimer st),
     retryTimers := nextRetryTimer st # retryTimers st, nextRetryTimer := nextRetryTimer st + 1\<rparr>)"
  by (auto simp: chat_ok_defs)

lemma shouldRetry_mode: "shouldRetry (decideAutoResend inp) \<Longrightarrow> a_isAutoResendMode inp"
  by (simp add: decideAutoResend_def split: if_splits)

lemma handleStreamError_ok [simp]: "chat_ok st \<Longrightarrow> chat_ok (handleStreamError env now cfg st e code)"
proof -
  assume ok: "chat_ok st"
  let ?st = "flushStreamUpdates now st"
  let ?d = "decideAutoResend \<lparr>a_isAutoResendMode = isAutoResendMode ?st, a_autoResendEnabled = c_autoResendEnabled cfg,
    a_retryCount = autoResendRetryCount ?st, a_maxRetries = c_autoResendMaxRetries cfg\<rparr>"
  show ?thesis
  proof (cases "shouldRetry ?d")
    case True
    then have "isAutoResendMode ?st" using shouldRetry_mode by fastforce
    then show ?thesis using True ok retry_scheduled_ok [of ?st] by (simp add: handleStreamError_def Let_def)
  next
    case False
    then show ?thesis using ok by (simp add: handleStreamError_def Let_def)
  qed
qed

lemma handleError_ok [simp]: "chat_ok st \<Longrightarrow> chat_ok (handleError env now src st e code)"
  by (simp add: handleError_def)

lemma sendStreamRequest_ok [simp]: "chat_ok st \<Longrightarrow> chat_ok (sendStreamRequest env now starts st p cfg)"
proof -
  assume ok: "chat_ok st"
  let ?c = "close_source (sseSource st) st"
  have "chat_ok (?c\<lparr>sources := sources ?c @ [\<lparr>so_config = cfg, so_closed = False\<rparr>], sseSource := Some (length (sources ?c)),
      isStreamComplete := False, isStreaming := True, sentPayloads := sentPayloads ?c @ [p]\<rparr>)"
    using ok by (auto simp: close_source_def chat_ok_defs split: option.splits)
  then show ?thesis by (simp add: sendStreamRequest_def Let_def)
qed

lemma sendNonStreamingChat_ok [simp]: "chat_ok st \<Longrightarrow> chat_ok (sendNonStreamingChat st ms)"
  by (simp add: sendNonStreamingChat_def Let_def chat_ok_defs)

lemma sendChat_ok [simp]: "chat_ok st \<Longrightarrow> chat_ok (sendChat env now starts st ms)"
  by (simp add: sendChat_def sendStreamingChat_def Let_def leave_mode_ok)

lemma foldl_keeps: "(\<And>s x. P s \<Longrightarrow> P (f s x)) \<Longrightarrow> P s \<Longrightarrow> P (foldl f s xs)"
  by (induction xs arbitrary: s) auto

lemma onStreamMessage_ok [simp]: "chat_ok st \<Longrightarrow> chat_ok (onStreamMessage env now src st d)"
  by (simp add: onStreamMessage_def foldl_keeps [where P = chat_ok] split: option.split)

lemma response_body_ok: "chat_ok st \<Longrightarrow> chat_ok (response_body env now st r out)"
  by (simp add: response_body_def Let_def split: request_outcome.split)

lemma onResponse_ok [simp]: "chat_ok st \<Longrightarrow> chat_ok (onResponse env now st r out)"
proof -
  assume "chat_ok st"
  then have "chat_ok (response_body env now st r out)" by (rule response_body_ok)
  then show ?thesis by (auto simp: onResponse_def Let_def chat_ok_defs)
qed

lemma stopGeneration_ok [simp]: "chat_ok st \<Longrightarrow> chat_ok (stopGeneration now st)"
proof -
  assume "chat_ok st"
  then have "chat_ok (flushStreamUpdates now (exitAutoResendMode (stopStream st)))" by (simp add: stopStream_def)
  then have "chat_ok (abort_request (flushStreamUpdates now (exitAutoResendMode (stopStream st))))"
    by (auto simp: abort_request_def chat_ok_defs split: option.splits)
  then show ?thesis by (simp add: stopGeneration_def Let_def)
qed

lemma retryTimerFires_ok [simp]: "chat_ok st \<Longrightarrow> chat_ok (retryTimerFires env oc st k)"
proof -
  assume "chat_ok st"
  then have "chat_ok (st\<lparr>autoResendTimer := None, retryTimers := removeAll k (retryTimers st)\<rparr>)"
    by (auto simp: chat_ok_defs)
  then show ?thesis by (simp add: retryTimerFires_def Let_def)
qed

lemma updateConfig_ok [simp]: "chat_ok st \<Longrightarrow> chat_ok (updateConfig env st ch)"
  by (simp add: updateConfig_def Let_def)

lemma autoResendEffect_ok [simp]: "chat_ok st \<Longrightarrow> chat_ok (autoResendEffect env oc st)"
  by (simp add: autoResendEffect_def triggerAutoResend_def Let_def enter_mode_ok)

lemma load_ok: "chat_ok st \<Longrightarrow> chat_ok (loadTimerFires env now st)"
  by (auto simp: loadTimerFires_def Let_def chat_ok_defs split: prod.split)

lemma save_ok_fires: "chat_ok st \<Longrightarrow> chat_ok (saveTimerFires env st)"
  by (simp add: saveTimerFires_def chat_ok_defs)

lemma handle_ok: "chat_ok st \<Longrightarrow> chat_ok (handle env oc st e)"
  by (cases e)
     (simp_all add: load_ok save_ok_fires handleSendMessage_def handleRegenerateMessage_def handleEditMessage_def
       handleEditOpenChange_def applyEdit_def handleDeleteMessage_def handleClearMessages_def clearMessages_def
       onStreamError_def onStreamReadyState_def updateParameterEnabled_def resetConfig_def modelsEffect_def
       groupsEffect_def Let_def split: option.split)

interpretation chat_inv: kept_invariant "chat_step env" chat_ok for env
  by unfold_locales (auto elim!: chat_step.cases intro: handle_ok)

lemma init_chat_ok: "chat_ok (init_chat env store)"
  by (simp add: init_chat_def chat_ok_defs)

section \<open>What the handlers do to the messages\<close>

lemma updateMessages_fields [simp]:
  "messages (updateMessages st u) = applyMessageStateUpdate (messages st) u"
  "isStreaming (updateMessages st u) = isStreaming st"
  "sseSource (updateMessages st u) = sseSource st"
  "sources (updateMessages st u) = sources st"
  "isRequesting (updateMessages st u) = isRequesting st"
  "isStreamComplete (updateMessages st u) = isStreamComplete st"
  "pendingContent (updateMessages st u) = pendingContent st"
  "pendingReasoning (updateMessages st u) = pendingReasoning st"
  "streamFlushTimer (updateMessages st u) = streamFlushTimer st"
  "isAutoResendMode (updateMessages st u) = isAutoResendMode st"
  "autoResendRetryCount (updateMessages st u) = autoResendRetryCount st"
  "autoResendTimer (updateMessages st u) = autoResendTimer st"
  "retryTimers (updateMessages st u) = retryTimers st"
  "nextRetryTimer (updateMessages st u) = nextRetryTimer st"
  "abortController (updateMessages st u) = abortController st"
  "abortedRequests (updateMessages st u) = abortedRequests st"
  "requestId (updateMessages st u) = requestId st"
  "requests (updateMessages st u) = requests st"
  "config (updateMessages st u) = config st"
  by (simp_all add: updateMessages_def persistMessages_def Let_def)

lemma apply_pending_Nil [simp]: "apply_pending now [] [] m = m"
  by (simp add: apply_pending_def)

lemma apply_pending_fields [simp]:
  "m_key (apply_pending now r c m) = m_key m" "m_from (apply_pending now r c m) = m_from m"
  "m_pendingAutoResend (apply_pending now r c m) = m_pendingAutoResend m"
  by (simp_all add: apply_pending_def Let_def)

lemma updateLast_id: "(\<And>m. f m = m) \<Longrightarrow> updateLastAssistantMessage ms f = ms"
  by (cases ms rule: rev_cases) (simp_all add: updateLastAssistantMessage_conv)

lemma updateLast_snoc [simp]:
  "m_from m = RoleAssistant \<Longrightarrow> updateLastAssistantMessage (ms @ [m]) f = ms @ [f m]"
  by (simp add: updateLastAssistantMessage_conv)

lemma flush_fields [simp]:
  "messages (flushStreamUpdates now st) =
     updateLastAssistantMessage (messages st) (apply_pending now (pendingReasoning st) (pendingContent st))"
  "isStreaming (flushStreamUpdates now st) = isStreaming st"
  "sseSource (flushStreamUpdates now st) = sseSource st"
  "sources (flushStreamUpdates now st) = sources st"
  "isRequesting (flushStreamUpdates now st) = isRequesting st"
  "isStreamComplete (flushStreamUpdates now st) = isStreamComplete st"
  "pendingContent (flushStreamUpdates now st) = []"
  "pendingReasoning (flushStreamUpdates now st) = []"
  "streamFlushTimer (flushStreamUpdates now st) = False"
  "isAutoResendMode (flushStreamUpdates now st) = isAutoResendMode st"
  "autoResendRetryCount (flushStreamUpdates now st) = autoResendRetryCount st"
  "autoResendTimer (flushStreamUpdates now st) = autoResendTimer st"
  "retryTimers (flushStreamUpdates now st) = retryTimers st"
  "nextRetryTimer (flushStreamUpdates now st) = nextRetryTimer st"
  "abortController (flushStreamUpdates now st) = abortController st"
  "abortedRequests (flushStreamUpdates now st) = abortedRequests st"
  "requestId (flushStreamUpdates now st) = requestId st"
  "requests (flushStreamUpdates now st) = requests st"
  "config (flushStreamUpdates now st) = config st"
  by (simp_all add: flushStreamUpdates_def Let_def updateLast_id)

lemma exit_fields [simp]:
  "messages (exitAutoResendMode st) = messages st"
  "isStreaming (exitAutoResendMode st) = isStreaming st"
  "sseSource (exitAutoResendMode st) = sseSource st"
  "sources (exitAutoResendMode st) = sources st"
  "isRequesting (exitAutoResendMode st) = isRequesting st"
  "isStreamComplete (exitAutoResendMode st) = isStreamComplete st"
  "pendingContent (exitAutoResendMode st) = pendingContent st"
  "pendingReasoning (exitAutoResendMode st) = pendingReasoning st"
  "streamFlushTimer (exitAutoResendMode st) = streamFlushTimer st"
  "isAutoResendMode (exitAutoResendMode st) = False"
  "autoResendRetryCount (exitAutoResendMode st) = -1"
  "autoResendTimer (exitAutoResendMode st) = None"
  "abortController (exitAutoResendMode st) = abortController st"
  "abortedRequests (exitAutoResendMode st) = abortedRequests st"
  "requestId (exitAutoResendMode st) = requestId st"
  "requests (exitAutoResendMode st) = requests st"
  "config (exitAutoResendMode st) = config st"
  by (simp_all add: exitAutoResendMode_def clearAutoResendTimer_def split: option.split)

lemma close_fields [simp]:
  "messages (closeActiveStream st src) = messages st"
  "isRequesting (closeActiveStream st src) = isRequesting st"
  "isStreamComplete (closeActiveStream st src) = isStreamComplete st"
  "pendingContent (closeActiveStream st src) = pendingContent st"
  "pendingReasoning (closeActiveStream st src) = pendingReasoning st"
  "streamFlushTimer (closeActiveStream st src) = streamFlushTimer st"
  "isAutoResendMode (closeActiveStream st src) = isAutoResendMode st"
  "autoResendRetryCount (closeActiveStream st src) = autoResendRetryCount st"
  "autoResendTimer (closeActiveStream st src) = autoResendTimer st"
  "retryTimers (closeActiveStream st src) = retryTimers st"
  "nextRetryTimer (closeActiveStream st src) = nextRetryTimer st"
  "abortController (closeActiveStream st src) = abortController st"
  "abortedRequests (closeActiveStream st src) = abortedRequests st"
  "requestId (closeActiveStream st src) = requestId st"
  "requests (closeActiveStream st src) = requests st"
  "config (closeActiveStream st src) = config st"
  by (simp_all add: closeActiveStream_def close_source_def Let_def split: option.split)

lemma close_current [simp]:
  "sseSource (closeActiveStream st None) = None" "isStreaming (closeActiveStream st None) = False"
  "sseSource st = Some i \<Longrightarrow> sseSource (closeActiveStream st (Some i)) = None"
  "sseSource st = Some i \<Longrightarrow> isStreaming (closeActiveStream st (Some i)) = False"
  by (simp_all add: closeActiveStream_def Let_def)

lemma close_source_configs [simp]: "map so_config (sources (close_source x st)) = map so_config (sources st)"
proof -
  have "(map f xs)[i := f (xs ! i)] = map f xs" for f :: "sse_source \<Rightarrow> playground_config" and xs i
    by (cases "i < length xs") (simp_all add: list_update_beyond flip: nth_map)
  then show ?thesis by (simp add: close_source_def map_update split: option.split)
qed

lemma close_configs [simp]: "map so_config (sources (closeActiveStream st src)) = map so_config (sources st)"
  by (simp add: closeActiveStream_def Let_def)

section \<open>Only the last message is touched\<close>

definition same_but_last :: "message list \<Rightarrow> message list \<Rightarrow> bool" where
  "same_but_last ms ms' \<longleftrightarrow> map m_key ms' = map m_key ms \<and> butlast ms' = butlast ms"

lemma same_but_last_refl [simp]: "same_but_last ms ms"
  by (simp add: same_but_last_def)

lemma same_but_last_trans: "same_but_last a b \<Longrightarrow> same_but_last b c \<Longrightarrow> same_but_last a c"
  by (simp add: same_but_last_def)

lemma updateLast_same [simp]:
  "(\<And>m. m_key (f m) = m_key m) \<Longrightarrow> same_but_last ms (updateLastAssistantMessage ms f)"
  by (cases ms rule: rev_cases) (simp_all add: updateLastAssistantMessage_conv same_but_last_def)

lemma updateLast_same2 [simp]:
  "same_but_last ms ms' \<Longrightarrow> (\<And>m. m_key (f m) = m_key m) \<Longrightarrow> same_but_last ms (updateLastAssistantMessage ms' f)"
  using same_but_last_trans updateLast_same by blast

lemma complete_keys [simp]:
  "m_key (complete_unless_final now m) = m_key m" "m_key (complete_if_pending now m) = m_key m"
  by (simp_all add: complete_unless_final_def complete_if_pending_def)

lemma error_same [simp]:
  "same_but_last ms ms' \<Longrightarrow> same_but_last ms (updateAssistantMessageWithError now ms' e c t)"
  by (simp add: updateAssistantMessageWithError_def)

lemma handleStreamError_same [simp]:
  "same_but_last (messages st) (messages (handleStreamError env now cfg st e code))"
  by (simp add: handleStreamError_def Let_def)

lemma handleError_same [simp]: "same_but_last (messages st) (messages (handleError env now src st e code))"
  by (simp add: handleError_def)

lemma handleStreamComplete_same [simp]:
  "same_but_last (messages st) (messages (handleStreamComplete now st))"
  by (simp add: handleStreamComplete_def Let_def)

lemma handleStreamUpdate_messages [simp]: "messages (handleStreamUpdate st ty c) = messages st"
  by (cases ty) (simp_all add: scheduleStreamFlush_def)

lemma updates_messages [simp]:
  "messages (foldl (\<lambda>st u. handleStreamUpdate st (u_type u) (u_chunk u)) st us) = messages st"
  by (induction us arbitrary: st) simp_all

lemma onStreamMessage_same: "same_but_last (messages st) (messages (onStreamMessage env now src st d))"
proof (cases "isStreamDoneMessage d")
  case True
  have "same_but_last (messages (closeActiveStream (st\<lparr>isStreamComplete := True\<rparr>) (Some src)))
      (messages (handleStreamComplete now (closeActiveStream (st\<lparr>isStreamComplete := True\<rparr>) (Some src))))"
    by (rule handleStreamComplete_same)
  then show ?thesis using True by (simp add: onStreamMessage_def)
qed (simp add: onStreamMessage_def split: option.split)

lemma response_same: "same_but_last (messages st) (messages (onResponse env now st r out))"
proof -
  have "m_key (nullish_or (applyChatCompletionResponse now m resp) m) = m_key m" for m resp
    by (cases "first_choice resp") (simp_all add: applyChatCompletionResponse_def applyChatCompletionChoice_def)
  then have "same_but_last (messages st) (messages (response_body env now st r out))"
    by (simp add: response_body_def Let_def split: request_outcome.split)
  then show ?thesis by (simp add: onResponse_def Let_def)
qed

lemma stop_same: "same_but_last (messages st) (messages (stopGeneration now st))"
proof -
  have "messages (abort_request x) = messages x" for x by (simp add: abort_request_def split: option.split)
  then show ?thesis by (simp add: stopGeneration_def stopStream_def Let_def)
qed

fun reply_event :: "chat_event \<Rightarrow> bool" where
  "reply_event (EvStreamMessage _ _) = True"
| "reply_event (EvStreamError _ _ _) = True"
| "reply_event (EvStreamReadyState _ _ _) = True"
| "reply_event EvFlushTimer = True"
| "reply_event (EvResponse _ _) = True"
| "reply_event EvStop = True"
| "reply_event _ = False"

text \<open>C30. Whatever the stream, the server, the flush timer or the stop button do, and in whatever
  order they do it, only the last message of the conversation can change: no message appears,
  disappears or moves, and every earlier message stays as it is.\<close>

theorem reply_touches_last_only:
  assumes "reply_event e"
  shows "map m_key (messages (handle env oc st e)) = map m_key (messages st)
    \<and> butlast (messages (handle env oc st e)) = butlast (messages st)"
proof -
  have "same_but_last (messages st) (messages (handle env oc st e))"
    using assms onStreamMessage_same response_same stop_same
    by (cases e) (auto simp: onStreamError_def onStreamReadyState_def Let_def split: option.split)
  then show ?thesis by (simp add: same_but_last_def)
qed

definition demo_env :: env where
  "demo_env = \<lparr>translate = (\<lambda>s. s), schema_parsers = declared_schemas\<rparr>"

definition demo_occasion :: occasion where
  "demo_occasion = \<lparr>o_now = 1, o_user_ids = (js ''u1'', js ''v1''), o_assistant_ids = (js ''a1'', js ''v2''),
     o_version_ids = (\<lambda>_. js ''v3''), o_stream_starts = True\<rparr>"

text \<open>A chat in which the first message has just been sent.\<close>

definition demo_chat :: chat where
  "demo_chat = handle demo_env demo_occasion (init_chat demo_env demo_storage) (EvSend (js ''hi''))"

lemma demo_chat_facts:
  "sseSource demo_chat = Some 0" "length (messages demo_chat) = 2" "messages demo_chat \<noteq> []"
  "m_from (last (messages demo_chat)) = RoleAssistant"
  by code_simp+

theorem reply_touches_last_only_witness:
  "butlast (messages (handle demo_env demo_occasion demo_chat (EvStreamMessage 0 STREAM_DONE_MESSAGE))) =
     butlast (messages demo_chat)"
  using reply_touches_last_only [of "EvStreamMessage 0 STREAM_DONE_MESSAGE" demo_env demo_occasion demo_chat] by simp

section \<open>Settling\<close>





section \<open>The state invariant\<close>


lemma demo_chat_reached: "reaches (chat_step demo_env) (init_chat demo_env demo_storage) demo_chat"
proof -
  have "chat_step demo_env (init_chat demo_env demo_storage) demo_chat"
    unfolding demo_chat_def by (rule chat_step.occurs) simp
  then show ?thesis using reaches.intros by metis
qed


section \<open>Retries are bounded\<close>

definition caps :: "jsnum \<Rightarrow> playground_config \<Rightarrow> bool" where
  "caps M cfg \<longleftrightarrow> c_autoResendMaxRetries cfg \<le> M"

definition retries_capped :: "jsnum \<Rightarrow> chat \<Rightarrow> bool" where
  "retries_capped M st \<longleftrightarrow> caps M (config st) \<and> (\<forall>c\<in>set (map so_config (sources st)). caps M c)
     \<and> (\<forall>c\<in>set (requests st). caps M c) \<and> autoResendRetryCount st \<le> max 0 \<lceil>M\<rceil>"

text \<open>The events that keep the configured maximum below \<open>M\<close>; resetting restores the default of three.\<close>

fun capped_event :: "jsnum \<Rightarrow> chat_event \<Rightarrow> bool" where
  "capped_event M (EvConfig (SetAutoResendMaxRetries v)) = (v \<le> M)"
| "capped_event M EvResetConfig = (3 \<le> M)"
| "capped_event M _ = True"

lemma capped_frame [simp]:
  "retries_capped M (st\<lparr>isRequesting := b\<rparr>) = retries_capped M st"
  "retries_capped M (st\<lparr>isStreamComplete := b\<rparr>) = retries_capped M st"
  "retries_capped M (st\<lparr>editingMessageKey := k\<rparr>) = retries_capped M st"
  "retries_capped M (st\<lparr>hasTriggeredAutoResend := b\<rparr>) = retries_capped M st"
  "retries_capped M (st\<lparr>models := ms\<rparr>) = retries_capped M st"
  "retries_capped M (st\<lparr>groups := gs\<rparr>) = retries_capped M st"
  "retries_capped M (st\<lparr>storage := l\<rparr>) = retries_capped M st"
  "retries_capped M (st\<lparr>parameterEnabled := e\<rparr>) = retries_capped M st"
  "retries_capped M (st\<lparr>abortController := a\<rparr>) = retries_capped M st"
  "retries_capped M (st\<lparr>autoResendTimer := t, retryTimers := ts\<rparr>) = retries_capped M st"
  "retries_capped M (st\<lparr>abortedRequests := rs\<rparr>) = retries_capped M st"
  "retries_capped M (updateMessages st u) = retries_capped M st"
  "retries_capped M (flushStreamUpdates now st) = retries_capped M st"
  by (simp_all add: retries_capped_def)

lemma capped_clear [simp]: "retries_capped M (clearAutoResendTimer st) = retries_capped M st"
  by (simp add: clearAutoResendTimer_def split: option.split)

lemma capped_exit [simp]: "retries_capped M st \<Longrightarrow> retries_capped M (exitAutoResendMode st)"
  by (simp add: retries_capped_def)

lemma capped_leave: "retries_capped M st \<Longrightarrow> retries_capped M (st\<lparr>isAutoResendMode := False, autoResendRetryCount := -1\<rparr>)"
  by (simp add: retries_capped_def)

lemma capped_enter: "retries_capped M st \<Longrightarrow> retries_capped M (st\<lparr>isAutoResendMode := True, autoResendRetryCount := 0\<rparr>)"
  by (simp add: retries_capped_def)

lemma capped_close [simp]: "retries_capped M (closeActiveStream st src) = retries_capped M st"
  unfolding retries_capped_def close_configs by simp

lemma capped_update [simp]: "retries_capped M (handleStreamUpdate st ty c) = retries_capped M st"
  by (cases ty) (simp_all add: scheduleStreamFlush_def retries_capped_def)

lemma capped_complete [simp]: "retries_capped M st \<Longrightarrow> retries_capped M (handleStreamComplete now st)"
  by (simp add: handleStreamComplete_def Let_def)

lemma retry_below_cap:
  assumes "shouldRetry (decideAutoResend \<lparr>a_isAutoResendMode = am, a_autoResendEnabled = en, a_retryCount = k, a_maxRetries = mx\<rparr>)"
    and "mx \<le> M"
  shows "k + 1 \<le> max 0 \<lceil>M\<rceil>"
proof -
  have "of_int k < mx" using assms(1) by (simp add: decideAutoResend_def split: if_splits)
  then have "of_int k < M" using assms(2) by simp
  then have "k < \<lceil>M\<rceil>" by (simp add: less_ceiling_iff)
  then show ?thesis by simp
qed

lemma capped_error [simp]:
  assumes "retries_capped M st" "caps M cfg"
  shows "retries_capped M (handleStreamError env now cfg st e code)"
proof -
  let ?st = "flushStreamUpdates now st"
  let ?d = "decideAutoResend \<lparr>a_isAutoResendMode = isAutoResendMode ?st, a_autoResendEnabled = c_autoResendEnabled cfg,
    a_retryCount = autoResendRetryCount ?st, a_maxRetries = c_autoResendMaxRetries cfg\<rparr>"
  show ?thesis
  proof (cases "shouldRetry ?d")
    case True
    then have "autoResendRetryCount st + 1 \<le> max 0 \<lceil>M\<rceil>"
      using retry_below_cap assms(2) by (simp add: caps_def)
    then show ?thesis using True assms(1) by (simp add: handleStreamError_def Let_def retries_capped_def)
  next
    case False
    then show ?thesis using assms(1) by (simp add: handleStreamError_def Let_def)
  qed
qed

lemma capped_handleError:
  "retries_capped M st \<Longrightarrow> src < length (sources st) \<Longrightarrow> retries_capped M (handleError env now src st e code)"
proof -
  assume c: "retries_capped M st" and l: "src < length (sources st)"
  then have "caps M (so_config (sources st ! src))" by (simp add: retries_capped_def)
  with c show ?thesis by (simp add: handleError_def)
qed

lemma capped_sendStreamRequest:
  assumes "retries_capped M st" "caps M cfg"
  shows "retries_capped M (sendStreamRequest env now starts st p cfg)"
proof -
  let ?c = "close_source (sseSource st) st"
  have k: "config ?c = config st" "requests ?c = requests st" "autoResendRetryCount ?c = autoResendRetryCount st"
    by (simp_all add: close_source_def split: option.split)
  have "retries_capped M (?c\<lparr>sources := sources ?c @ [\<lparr>so_config = cfg, so_closed = False\<rparr>],
      sseSource := Some (length (sources ?c)), isStreamComplete := False, isStreaming := True,
      sentPayloads := sentPayloads ?c @ [p]\<rparr>)"
    using assms unfolding retries_capped_def by (simp add: k del: set_map)
  then show ?thesis using assms(2) by (simp add: sendStreamRequest_def Let_def)
qed

lemma capped_sendChat [simp]: "retries_capped M st \<Longrightarrow> retries_capped M (sendChat env now starts st ms)"
proof -
  assume c: "retries_capped M st"
  let ?s = "clearAutoResendTimer st"
  let ?t = "if \<not> (\<exists>m\<in>set ms. truthy (m_pendingAutoResend m))
     then ?s\<lparr>isAutoResendMode := False, autoResendRetryCount := -1\<rparr> else ?s"
  have t: "retries_capped M ?t" using c by (simp add: capped_leave)
  then have "retries_capped M (sendStreamingChat env now starts ?t ms)"
    unfolding sendStreamingChat_def Let_def by (intro capped_sendStreamRequest) (simp_all add: retries_capped_def)
  moreover have "retries_capped M (sendNonStreamingChat ?t ms)"
    using t by (simp add: sendNonStreamingChat_def Let_def retries_capped_def)
  ultimately show ?thesis unfolding sendChat_def Let_def by simp
qed

lemma capped_foldl [simp]:
  "retries_capped M (foldl (\<lambda>st u. handleStreamUpdate st (u_type u) (u_chunk u)) st us) = retries_capped M st"
  by (induction us arbitrary: st) simp_all

lemma capped_response:
  assumes "retries_capped M st" "1 \<le> r" "r \<le> requestId st" "length (requests st) = requestId st"
  shows "retries_capped M (onResponse env now st r out)"
proof -
  have "requests st ! (r - 1) \<in> set (requests st)" using assms by simp
  then have "caps M (requests st ! (r - 1))" using assms(1) unfolding retries_capped_def by blast
  then have "retries_capped M (response_body env now st r out)"
    using assms(1) by (simp add: response_body_def Let_def split: request_outcome.split)
  then show ?thesis by (simp add: onResponse_def Let_def)
qed

lemma capped_config:
  "retries_capped M st \<Longrightarrow> caps M (change_config ch (config st)) \<Longrightarrow> retries_capped M (updateConfig env st ch)"
  by (simp add: updateConfig_def Let_def retries_capped_def)

lemma capped_handle:
  assumes c: "retries_capped M st" and "chat_ok st" "possible st e" "capped_event M e"
  shows "retries_capped M (handle env oc st e)"
proof (cases e)
  case (EvResponse r out)
  then show ?thesis using assms capped_response [OF c] by (simp add: chat_ok_def request_ok_def)
next
  case (EvConfig ch)
  have "caps M (config st)" using c by (simp add: retries_capped_def)
  then have "caps M (change_config ch (config st))" using assms(4) EvConfig by (cases ch) (simp_all add: caps_def)
  then show ?thesis using c EvConfig by (simp add: capped_config)
next
  case EvResetConfig
  then show ?thesis using c assms(4) by (simp add: resetConfig_def Let_def retries_capped_def caps_def DEFAULT_CONFIG_def)
next
  case (EvModels ms)
  have "caps M (config st)" using c by (simp add: retries_capped_def)
  then show ?thesis using c EvModels by (simp add: modelsEffect_def Let_def capped_config caps_def split: option.split)
next
  case (EvGroups gs)
  have "caps M (config st)" using c by (simp add: retries_capped_def)
  then show ?thesis using c EvGroups by (simp add: groupsEffect_def Let_def capped_config caps_def split: option.split)
next
  case EvLoad
  then show ?thesis using c by (simp add: loadTimerFires_def Let_def retries_capped_def split: prod.split)
next
  case EvSaveTimer
  then show ?thesis using c by (simp add: saveTimerFires_def retries_capped_def)
next
  case EvStop
  have "retries_capped M (abort_request x) = retries_capped M x" for x
    by (simp add: abort_request_def split: option.split)
  then show ?thesis using c EvStop by (simp add: stopGeneration_def stopStream_def Let_def)
qed (use assms in \<open>simp_all add: autoResendEffect_def triggerAutoResend_def Let_def capped_enter handleSendMessage_def
  handleRegenerateMessage_def handleEditMessage_def handleEditOpenChange_def applyEdit_def handleDeleteMessage_def
  handleClearMessages_def clearMessages_def onStreamMessage_def onStreamError_def onStreamReadyState_def
  capped_handleError retryTimerFires_def updateParameterEnabled_def split: option.split\<close>)

text \<open>Runs in which the configured maximum stays below \<open>M\<close>.\<close>

inductive capped_step :: "env \<Rightarrow> jsnum \<Rightarrow> chat \<Rightarrow> chat \<Rightarrow> bool" for env M where
  capped_occurs: "possible st e \<Longrightarrow> capped_event M e \<Longrightarrow> capped_step env M st (handle env oc st e)"

interpretation retry_inv: kept_invariant "capped_step env M" "\<lambda>st. chat_ok st \<and> retries_capped M st" for env M
  by unfold_locales (auto elim!: capped_step.cases intro: handle_ok capped_handle)



section \<open>The buffer is transparent\<close>

datatype stream_input = Chunk jstr | Flush jsnum

fun feed :: "chat \<Rightarrow> stream_input list \<Rightarrow> chat" where
  "feed st [] = st"
| "feed st (Chunk c # is) = feed (handleStreamUpdate st ChunkContent c) is"
| "feed st (Flush now # is) = feed (flushStreamUpdates now st) is"

fun chunks_of :: "stream_input list \<Rightarrow> jstr list" where
  "chunks_of [] = []"
| "chunks_of (Chunk c # is) = c # chunks_of is"
| "chunks_of (Flush now # is) = chunks_of is"

text \<open>No run of chunks begins with the whole of a run directly before it, so no chunk can be taken
  for a snapshot.\<close>

definition unambiguous :: "jstr list \<Rightarrow> bool" where
  "unambiguous cs \<longleftrightarrow> [] \<notin> set cs \<and>
     (\<forall>xs ys zs ws. cs = xs @ ys @ zs @ ws \<longrightarrow> ys \<noteq> [] \<longrightarrow> zs \<noteq> [] \<longrightarrow> \<not> startsWith (concat zs) (concat ys))"

lemma feed_append: "feed st (is @ js') = feed (feed st is) js'"
  by (induction st "is" rule: feed.induct) simp_all

lemma chunks_of_append: "chunks_of (is @ js') = chunks_of is @ chunks_of js'"
  by (induction "is" rule: chunks_of.induct) simp_all

lemma unambiguous_prefix: "unambiguous (cs @ ds) \<Longrightarrow> unambiguous cs"
  unfolding unambiguous_def by (metis append.assoc set_append UnI1)

lemma unambiguousD:
  "unambiguous cs \<Longrightarrow> cs = xs @ ys @ zs @ ws \<Longrightarrow> ys \<noteq> [] \<Longrightarrow> zs \<noteq> [] \<Longrightarrow> \<not> startsWith (concat zs) (concat ys)"
  unfolding unambiguous_def by blast

lemma concat_ne: "[] \<notin> set cs \<Longrightarrow> concat cs = [] \<longleftrightarrow> cs = []"
  by (cases cs) auto

text \<open>The reply so far: what was written out and what is buffered are the chunks in their order.\<close>

definition reply_so_far :: "message list \<Rightarrow> jstr list \<Rightarrow> chat \<Rightarrow> bool" where
  "reply_so_far ms cs st \<longleftrightarrow> (\<exists>m a b. messages st = ms @ [m] \<and> m_from m = RoleAssistant
     \<and> (m_status m = Some StLoading \<or> m_status m = Some StStreaming)
     \<and> getMessageContent m = concat a \<and> pendingContent st = concat b \<and> cs = a @ b \<and> pendingReasoning st = [])"

lemma reply_chunk:
  assumes "reply_so_far ms cs st" "unambiguous (cs @ [c])"
  shows "reply_so_far ms (cs @ [c]) (handleStreamUpdate st ChunkContent c)"
proof -
  obtain m a b where r: "messages st = ms @ [m]" "m_from m = RoleAssistant"
    "m_status m = Some StLoading \<or> m_status m = Some StStreaming" "getMessageContent m = concat a"
    "pendingContent st = concat b" "cs = a @ b" "pendingReasoning st = []"
    using assms(1) by (auto simp: reply_so_far_def)
  have "mergePendingStreamChunk (concat b) c = concat (b @ [c])"
  proof (cases "b = []")
    case False
    then have "\<not> startsWith c (concat b)" using unambiguousD [OF assms(2), of a b "[c]" "[]"] r(6) by simp
    then show ?thesis by (simp add: mergePendingStreamChunk_def)
  qed (simp add: mergePendingStreamChunk_def)
  then show ?thesis unfolding reply_so_far_def using r
    by (intro exI [of _ m] exI [of _ a] exI [of _ "b @ [c]"]) (simp add: scheduleStreamFlush_def)
qed

lemma reply_flush:
  assumes "reply_so_far ms cs st" "unambiguous cs"
  shows "reply_so_far ms cs (flushStreamUpdates now st)"
proof -
  obtain m a b where r: "messages st = ms @ [m]" "m_from m = RoleAssistant"
    "m_status m = Some StLoading \<or> m_status m = Some StStreaming" "getMessageContent m = concat a"
    "pendingContent st = concat b" "cs = a @ b" "pendingReasoning st = []"
    using assms(1) by (auto simp: reply_so_far_def)
  show ?thesis
  proof (cases "b = []")
    case True
    then show ?thesis unfolding reply_so_far_def using r
      by (intro exI [of _ m] exI [of _ a] exI [of _ "[]"]) simp
  next
    case False
    have cb: "concat b \<noteq> []" using False assms(2) concat_ne [of b] by (auto simp: unambiguous_def r(6))
    let ?m = "applyStreamingChunk now m ChunkContent (concat b)"
    have "merge_chunk (concat a) (concat b) = concat cs"
    proof (cases "a = []")
      case False
      then have "\<not> startsWith (concat b) (concat a)"
        using unambiguousD [OF assms(2), of "[]" a b "[]"] \<open>b \<noteq> []\<close> r(6) by simp
      then show ?thesis by (simp add: merge_chunk_def r(6))
    qed (simp add: merge_chunk_def r(6))
    then have "getMessageContent ?m = concat cs"
      using r(3,4) by (auto simp: getMessageContent_applyStreamingChunk)
    moreover have "m_status ?m = Some StStreaming" using r(3) by (auto simp: applyStreamingChunk_status)
    moreover have "apply_pending now [] (concat b) m = ?m" using cb by (simp add: apply_pending_def)
    ultimately show ?thesis unfolding reply_so_far_def using r
      by (intro exI [of _ ?m] exI [of _ cs] exI [of _ "[]"]) simp
  qed
qed

lemma reply_feed:
  "reply_so_far ms [] st \<Longrightarrow> unambiguous (chunks_of is) \<Longrightarrow> reply_so_far ms (chunks_of is) (feed st is)"
proof (induction "is" rule: rev_induct)
  case (snoc i "is")
  then have u: "unambiguous (chunks_of is)" using unambiguous_prefix by (simp add: chunks_of_append)
  with snoc have r: "reply_so_far ms (chunks_of is) (feed st is)" by simp
  show ?case
  proof (cases i)
    case (Chunk c)
    then show ?thesis using reply_chunk [OF r] snoc.prems(2) by (simp add: feed_append chunks_of_append)
  next
    case (Flush now)
    then show ?thesis using reply_flush [OF r u] by (simp add: feed_append chunks_of_append)
  qed
qed simp


lemma unambiguous_demo: "unambiguous [js ''he'', js ''llo'']"
proof -
  have "\<not> startsWith (js ''llo'') (js ''he'')" by code_simp
  then show ?thesis unfolding unambiguous_def by (auto simp: Cons_eq_append_conv)
qed

lemma demo_chat_reply:
  "messages demo_chat = [createUserMessage (js ''u1'', js ''v1'') (js ''hi'') 1] @ [createLoadingAssistantMessage (js ''a1'', js ''v2'') 1]"
  "pendingContent demo_chat = []" "pendingReasoning demo_chat = []"
  by code_simp+


section \<open>Conversations stay well formed\<close>

text \<open>What is asked of the environment: generated keys are new, and a loaded history is well formed.\<close>

fun fresh_event :: "env \<Rightarrow> occasion \<Rightarrow> chat \<Rightarrow> chat_event \<Rightarrow> bool" where
  "fresh_event env oc st (EvSend _) =
     (fst (o_user_ids oc) \<notin> m_key ` set (messages st) \<and> fst (o_assistant_ids oc) \<notin> m_key ` set (messages st)
      \<and> fst (o_user_ids oc) \<noteq> fst (o_assistant_ids oc))"
| "fresh_event env oc st (EvRegenerate _) = (fst (o_assistant_ids oc) \<notin> m_key ` set (messages st))"
| "fresh_event env oc st (EvApplyEdit _ _) = (fst (o_assistant_ids oc) \<notin> m_key ` set (messages st))"
| "fresh_event env oc st EvLoad =
     wf_conversation (nullish_or (snd (loadMessages (schema_parsers env) (o_now oc) (storage st))) [])"
| "fresh_event env oc st _ = True"

inductive fresh_step :: "env \<Rightarrow> chat \<Rightarrow> chat \<Rightarrow> bool" for env where
  fresh_occurs: "possible st e \<Longrightarrow> fresh_event env oc st e \<Longrightarrow> fresh_step env st (handle env oc st e)"

abbreviation wf_chat :: "chat \<Rightarrow> bool" where
  "wf_chat st \<equiv> wf_conversation (messages st)"

lemma wf_update_last [simp]:
  "wf_conversation ms \<Longrightarrow> (\<And>m. m_key (f m) = m_key m) \<Longrightarrow> (\<And>m. m_versions m \<noteq> [] \<Longrightarrow> m_versions (f m) \<noteq> []) \<Longrightarrow>
   wf_conversation (updateLastAssistantMessage ms f)"
  by (rule wf_conversation_last_update)

lemma versions_kept [simp]:
  "m_versions m \<noteq> [] \<Longrightarrow> m_versions (apply_pending now r c m) \<noteq> []"
  "m_versions m \<noteq> [] \<Longrightarrow> m_versions (complete_unless_final now m) \<noteq> []"
  "m_versions m \<noteq> [] \<Longrightarrow> m_versions (complete_if_pending now m) \<noteq> []"
  "m_versions (applyChatCompletionChoice now m ch) \<noteq> []"
  by (simp_all add: apply_pending_def Let_def applyStreamingChunk_versions complete_unless_final_def
      complete_if_pending_def applyChatCompletionChoice_def)

lemma wf_error [simp]: "wf_chat st \<Longrightarrow> wf_chat (handleStreamError env now cfg st e code)"
  by (simp add: handleStreamError_def Let_def updateAssistantMessageWithError_wf)

lemma wf_handleError [simp]: "wf_chat st \<Longrightarrow> wf_chat (handleError env now src st e code)"
  by (simp add: handleError_def)

lemma wf_complete [simp]: "wf_chat st \<Longrightarrow> wf_chat (handleStreamComplete now st)"
  by (simp add: handleStreamComplete_def Let_def)

lemma close_source_messages [simp]: "messages (close_source x st) = messages st"
  by (simp add: close_source_def split: option.split)

lemma wf_sendStreamRequest [simp]: "wf_chat st \<Longrightarrow> wf_chat (sendStreamRequest env now starts st p cfg)"
  by (simp add: sendStreamRequest_def Let_def)

lemma clear_messages [simp]: "messages (clearAutoResendTimer st) = messages st"
  by (simp add: clearAutoResendTimer_def split: option.split)

lemma wf_sendChat [simp]: "wf_chat st \<Longrightarrow> wf_chat (sendChat env now starts st ms)"
  by (simp add: sendChat_def sendStreamingChat_def sendNonStreamingChat_def Let_def)

lemma wf_enumerate:
  assumes "wf_conversation ms" and "\<And>i m. m_key (f (i, m)) = m_key m"
    and "\<And>i m. m_versions m \<noteq> [] \<Longrightarrow> m_versions (f (i, m)) \<noteq> []"
  shows "wf_conversation (map f (enumerate n ms))"
proof -
  have k: "map m_key (map f (enumerate n ms)) = map m_key ms"
    using assms(2) by (induction ms arbitrary: n) simp_all
  have v: "m_versions (f x) \<noteq> []" if "x \<in> set (enumerate n ms)" for x
  proof -
    have "snd x \<in> set ms" using that set_zip_rightD [of "fst x" "snd x" "[n..<n + length ms]" ms]
      by (simp add: enumerate_eq_zip)
    then show ?thesis using assms(1) assms(3) [of "snd x" "fst x"] by (simp add: wf_conversation_def)
  qed
  show ?thesis unfolding wf_conversation_def k using v assms(1) by (simp add: wf_conversation_def)
qed

lemma wf_reset_pending: "wf_conversation ms \<Longrightarrow> wf_conversation (reset_pending nids ms)"
  unfolding reset_pending_def by (rule wf_enumerate) (simp_all add: resetPendingMessageForRetry_def)

lemma wf_mark_last: "wf_conversation ms \<Longrightarrow> wf_conversation (mark_last_interrupted t ms)"
  unfolding mark_last_interrupted_def by (rule wf_enumerate) (simp_all add: mark_interrupted_def)

lemma wf_response: "wf_chat st \<Longrightarrow> wf_chat (onResponse env now st r out)"
proof -
  assume wf: "wf_chat st"
  have "m_key (nullish_or (applyChatCompletionResponse now m resp) m) = m_key m"
    "m_versions m \<noteq> [] \<Longrightarrow> m_versions (nullish_or (applyChatCompletionResponse now m resp) m) \<noteq> []" for m resp
    by (cases "first_choice resp"; simp add: applyChatCompletionResponse_def;
        simp add: applyChatCompletionChoice_def)+
  with wf have "wf_chat (response_body env now st r out)"
    by (simp add: response_body_def Let_def split: request_outcome.split)
  then show ?thesis by (simp add: onResponse_def Let_def)
qed

lemma wf_stop: "wf_chat st \<Longrightarrow> wf_chat (stopGeneration now st)"
proof -
  have "messages (abort_request x) = messages x" for x by (simp add: abort_request_def split: option.split)
  then show "wf_chat st \<Longrightarrow> wf_chat (stopGeneration now st)" by (simp add: stopGeneration_def stopStream_def Let_def)
qed

lemma updateConfig_messages [simp]: "messages (updateConfig env st ch) = messages st"
  by (simp add: updateConfig_def Let_def)

lemma wf_handle:
  assumes "wf_chat st" "fresh_event env oc st e"
  shows "wf_chat (handle env oc st e)"
proof (cases e)
  case EvLoad
  then show ?thesis using assms by (simp add: loadTimerFires_def Let_def case_prod_unfold)
next
  case (EvSend c)
  then show ?thesis using assms appendUserMessagePair_wf [OF assms(1)] by (simp add: handleSendMessage_def Let_def)
next
  case (EvRegenerate k)
  then show ?thesis using assms createRegeneratedMessages_wf [OF assms(1)]
    by (simp add: handleRegenerateMessage_def split: option.split)
next
  case (EvApplyEdit c b)
  then show ?thesis using assms applyMessageEdit_wf [OF assms(1)]
    by (simp add: applyEdit_def Let_def split: option.split)
next
  case EvClear
  then show ?thesis by (simp add: handleClearMessages_def clearMessages_def wf_conversation_def)
qed (use assms in \<open>simp_all add: saveTimerFires_def autoResendEffect_def triggerAutoResend_def Let_def wf_reset_pending
  wf_mark_last handleEditMessage_def handleEditOpenChange_def handleDeleteMessage_def removeMessageByKey_wf
  wf_stop onStreamMessage_def onStreamError_def onStreamReadyState_def retryTimerFires_def wf_response
  updateParameterEnabled_def resetConfig_def modelsEffect_def groupsEffect_def split: option.split\<close>)

interpretation wf_inv: kept_invariant "fresh_step env" wf_chat for env
  by unfold_locales (auto elim!: fresh_step.cases intro: wf_handle)



section \<open>Marks and timers that stay behind\<close>


definition marked_message :: message where
  "marked_message = (createLoadingAssistantMessage (js ''a1'', js ''v2'') 1)\<lparr>m_pendingAutoResend := Some True\<rparr>"


text \<open>C33. A stream that reports two failures is retried twice: the handler of a stream does not
  remember that the stream has failed already, the second report counts a second retry and arms a
  second timer, and only the later of the two timers can be cleared, so that even the stop button
  leaves a resend behind.\<close>

theorem double_failure_leaves_timer:
  assumes "isAutoResendMode st" "\<not> isStreamComplete st" "src < length (sources st)"
    and "c_autoResendEnabled (so_config (sources st ! src))"
    and "of_int (autoResendRetryCount st) + 1 < c_autoResendMaxRetries (so_config (sources st ! src))"
    and "st1 = handleError env now src st e1 code1" "st2 = handleError env now src st1 e2 code2"
  shows "autoResendRetryCount st2 = autoResendRetryCount st + 2
    \<and> retryTimers st2 = (nextRetryTimer st + 1) # nextRetryTimer st # retryTimers st
    \<and> nextRetryTimer st \<in> set (retryTimers (stopGeneration now2 st2))"
proof -
  let ?cfg = "so_config (sources st ! src)"
  have 1: "handleStreamError env now ?cfg st e1 code1 = (flushStreamUpdates now st)
      \<lparr>autoResendRetryCount := autoResendRetryCount st + 1, autoResendTimer := Some (nextRetryTimer st),
       retryTimers := nextRetryTimer st # retryTimers st, nextRetryTimer := nextRetryTimer st + 1\<rparr>"
    using assms(1,4,5) by (simp add: handleStreamError_def Let_def decideAutoResend_def)
  then have f1: "isAutoResendMode st1" "\<not> isStreamComplete st1" "autoResendRetryCount st1 = autoResendRetryCount st + 1"
      "retryTimers st1 = nextRetryTimer st # retryTimers st" "nextRetryTimer st1 = nextRetryTimer st + 1"
    using assms(1,2,6) by (simp_all add: handleError_def)
  have "map so_config (sources st1) = map so_config (sources st)"
    using 1 assms(2,6) by (simp add: handleError_def)
  then have c: "so_config (sources st1 ! src) = ?cfg" using assms(3) by (metis length_map nth_map)
  have 2: "handleStreamError env now ?cfg st1 e2 code2 = (flushStreamUpdates now st1)
      \<lparr>autoResendRetryCount := autoResendRetryCount st1 + 1, autoResendTimer := Some (nextRetryTimer st1),
       retryTimers := nextRetryTimer st1 # retryTimers st1, nextRetryTimer := nextRetryTimer st1 + 1\<rparr>"
    using f1 assms(4,5) by (simp add: handleStreamError_def Let_def decideAutoResend_def)
  have f2: "autoResendRetryCount st2 = autoResendRetryCount st + 2" "autoResendTimer st2 = Some (nextRetryTimer st + 1)"
      "retryTimers st2 = (nextRetryTimer st + 1) # nextRetryTimer st # retryTimers st"
    using 2 c f1 assms(7) by (simp_all add: handleError_def)
  have "retryTimers (abort_request x) = retryTimers x" for x by (simp add: abort_request_def split: option.split)
  then have "retryTimers (stopGeneration now2 st2) = removeAll (nextRetryTimer st + 1) (retryTimers st2)"
    using f2(2) by (simp add: stopGeneration_def stopStream_def Let_def exitAutoResendMode_def clearAutoResendTimer_def)
  then show ?thesis using f2 by simp
qed

theorem double_failure_leaves_timer_witness:
  "0 \<in> set (retryTimers (stopGeneration 9 (handleError demo_env 5 0 (handleError demo_env 5 0
     (demo_chat\<lparr>isAutoResendMode := True, autoResendRetryCount := 0\<rparr>) (js ''x'') None) (js ''x'') None)))"
proof -
  let ?st = "demo_chat\<lparr>isAutoResendMode := True, autoResendRetryCount := 0\<rparr>"
  have c: "isAutoResendMode ?st" "\<not> isStreamComplete ?st" "0 < length (sources ?st)" "nextRetryTimer ?st = 0"
    "c_autoResendEnabled (so_config (sources ?st ! 0))"
    "of_int (autoResendRetryCount ?st) + 1 < c_autoResendMaxRetries (so_config (sources ?st ! 0))"
    by code_simp+
  show ?thesis
    using double_failure_leaves_timer [OF c(1-3,5,6) refl refl,
        where env = demo_env and ?now2.0 = 9 and now = 5 and ?e1.0 = "js ''x''" and ?e2.0 = "js ''x''"
          and ?code1.0 = None and ?code2.0 = None] c(4) by simp
qed

end
