(* ===== verification/RouteConfig.thy ===== *)
theory RouteConfig
  imports Json "HOL-Library.Monad_Syntax"
begin

text \<open>
  The advanced custom routes of a channel: \<open>features/channels/lib/advanced-custom.ts\<close>.

  A configuration arrives as JSON that nothing has checked, so a configuration argument is a
  \<open>json\<close> value, a property that is absent is \<open>None\<close>, and an operation that may throw a
  \<open>TypeError\<close> is an option whose \<open>None\<close> is the exception. Normalisation turns the value into
  records; \<open>route_value\<close> and \<open>config_value\<close> are the records as the values they are at run time. The
  \<open>URL\<close> constructor of the platform is a parameter (\<open>url_api\<close>).

  The lemmas show that validation decides exactly the declarative condition \<open>well_routed\<close> and reports
  the first route that breaks it, that printing and reading a configuration normalises it, that the
  templates and converter defaults are valid, and where an unchecked value raises an exception.
\<close>

section \<open>Dynamic values\<close>

definition json_or :: "json option \<Rightarrow> json \<Rightarrow> json" where
  "json_or v d = (case v of None \<Rightarrow> d | Some j \<Rightarrow> if json_truthy j then j else d)"

fun json_trim :: "json \<Rightarrow> jstr option" where
  "json_trim (JStr s) = Some (trim s)"
| "json_trim _ = None"

fun map_throwing :: "('a \<Rightarrow> 'b option) \<Rightarrow> 'a list \<Rightarrow> 'b list option" where
  "map_throwing f [] = Some []"
| "map_throwing f (x # xs) = do { y \<leftarrow> f x; ys \<leftarrow> map_throwing f xs; Some (y # ys) }"

abbreviation text_value :: "string \<Rightarrow> json" where
  "text_value s \<equiv> JStr (js s)"

section \<open>Types\<close>

record route_auth =
  auth_type :: "json option"
  auth_name :: "json option"
  auth_value :: "json option"

record advanced_route =
  incoming_path :: json
  upstream_path :: jstr
  converter :: json
  models :: "jstr list option"
  auth :: "route_auth option"

record advanced_custom_config =
  advanced_routes :: "advanced_route list"

record url =
  url_host :: jstr
  url_protocol :: jstr

type_synonym url_api = "jstr \<Rightarrow> url option"

record validation_error =
  e_message :: jstr
  e_routeIndex :: "nat option"

text \<open>The records as run-time values: a property that is \<open>undefined\<close> is left out.\<close>

definition defined_fields :: "(jstr \<times> json option) list \<Rightarrow> (jstr \<times> json) list" where
  "defined_fields fs = List.map_filter (\<lambda>(k, v). map_option (Pair k) v) fs"

definition auth_object :: "route_auth \<Rightarrow> json" where
  "auth_object a = JObj (defined_fields
     [(js ''type'', auth_type a), (js ''name'', auth_name a), (js ''value'', auth_value a)])"

definition route_value :: "advanced_route \<Rightarrow> json" where
  "route_value r = JObj (defined_fields
     [(js ''incoming_path'', Some (incoming_path r)), (js ''upstream_path'', Some (JStr (upstream_path r))),
      (js ''converter'', Some (converter r)), (js ''models'', map_option (\<lambda>ms. JArr (map JStr ms)) (models r)),
      (js ''auth'', map_option auth_object (auth r))])"

definition config_value :: "advanced_custom_config \<Rightarrow> json" where
  "config_value c = JObj [(js ''advanced_routes'', JArr (map route_value (advanced_routes c)))]"

section \<open>Options\<close>

definition CHANNEL_TYPE_ADVANCED_CUSTOM :: int where "CHANNEL_TYPE_ADVANCED_CUSTOM = 58"

record converter_option =
  co_value :: jstr
  co_label :: jstr
  co_triggerLabel :: jstr

definition ADVANCED_CUSTOM_CONVERTER_OPTIONS :: "converter_option list" where
  "ADVANCED_CUSTOM_CONVERTER_OPTIONS =
    [\<lparr>co_value = js ''none'', co_label = js ''Native forwarding'', co_triggerLabel = js ''Native forwarding''\<rparr>,
     \<lparr>co_value = js ''anthropic_messages_to_openai_chat_completions'',
      co_label = js ''Anthropic Messages to OpenAI Chat'', co_triggerLabel = js ''To OpenAI Chat''\<rparr>,
     \<lparr>co_value = js ''openai_chat_completions_to_anthropic_messages'',
      co_label = js ''OpenAI Chat to Anthropic Messages'', co_triggerLabel = js ''To Anthropic Messages''\<rparr>,
     \<lparr>co_value = js ''openai_chat_completions_to_openai_responses'',
      co_label = js ''OpenAI Chat to OpenAI Responses'', co_triggerLabel = js ''To OpenAI Responses''\<rparr>,
     \<lparr>co_value = js ''openai_responses_to_openai_chat_completions'',
      co_label = js ''OpenAI Responses to OpenAI Chat'', co_triggerLabel = js ''To OpenAI Chat''\<rparr>,
     \<lparr>co_value = js ''openai_responses_to_gemini_generate_content'',
      co_label = js ''OpenAI Responses to Gemini Generate Content'',
      co_triggerLabel = js ''To Gemini Generate Content''\<rparr>,
     \<lparr>co_value = js ''gemini_generate_content_to_openai_chat_completions'',
      co_label = js ''Gemini Generate Content to OpenAI Chat'', co_triggerLabel = js ''To OpenAI Chat''\<rparr>,
     \<lparr>co_value = js ''openai_chat_completions_to_gemini_generate_content'',
      co_label = js ''OpenAI Chat to Gemini Generate Content'',
      co_triggerLabel = js ''To Gemini Generate Content''\<rparr>]"

datatype auth_mode = ModeDefault | ModeNone | ModeHeader | ModeQuery

definition ADVANCED_CUSTOM_AUTH_MODE_OPTIONS :: "(auth_mode \<times> jstr) list" where
  "ADVANCED_CUSTOM_AUTH_MODE_OPTIONS =
    [(ModeDefault, js ''Default Bearer''), (ModeNone, js ''No Auth''), (ModeHeader, js ''Header''),
     (ModeQuery, js ''Query'')]"

record path_option =
  po_value :: jstr
  po_label :: jstr

definition ADVANCED_CUSTOM_INCOMING_PATH_OPTIONS :: "path_option list" where
  "ADVANCED_CUSTOM_INCOMING_PATH_OPTIONS =
    [\<lparr>po_value = js ''/v1/chat/completions'', po_label = js ''OpenAI Chat''\<rparr>,
     \<lparr>po_value = js ''/v1/responses'', po_label = js ''OpenAI Responses''\<rparr>,
     \<lparr>po_value = js ''/v1/responses/compact'', po_label = js ''OpenAI Responses Compact''\<rparr>,
     \<lparr>po_value = js ''/v1/embeddings'', po_label = js ''OpenAI Embeddings''\<rparr>,
     \<lparr>po_value = js ''/v1/images/generations'', po_label = js ''OpenAI Image Generations''\<rparr>,
     \<lparr>po_value = js ''/v1/images/edits'', po_label = js ''OpenAI Image Edits''\<rparr>,
     \<lparr>po_value = js ''/v1/completions'', po_label = js ''OpenAI Completions''\<rparr>,
     \<lparr>po_value = js ''/v1/audio/speech'', po_label = js ''OpenAI Audio Speech''\<rparr>,
     \<lparr>po_value = js ''/v1/audio/transcriptions'', po_label = js ''OpenAI Audio Transcriptions''\<rparr>,
     \<lparr>po_value = js ''/v1/audio/translations'', po_label = js ''OpenAI Audio Translations''\<rparr>,
     \<lparr>po_value = js ''/v1/rerank'', po_label = js ''OpenAI Rerank''\<rparr>,
     \<lparr>po_value = js ''/v1/realtime'', po_label = js ''OpenAI Realtime''\<rparr>,
     \<lparr>po_value = js ''/v1/messages'', po_label = js ''Claude Messages''\<rparr>,
     \<lparr>po_value = js ''/v1beta/models/{model}:generateContent'', po_label = js ''Gemini Generate Content''\<rparr>,
     \<lparr>po_value = js ''/v1beta/models/{model}:embedContent'', po_label = js ''Gemini Embed Content''\<rparr>,
     \<lparr>po_value = js ''/v1beta/models/{model}:batchEmbedContents'', po_label = js ''Gemini Batch Embed Contents''\<rparr>]"

definition ADVANCED_CUSTOM_ROUTE_SUMMARY_LABELS :: "(jstr, jstr) jmap" where
  "ADVANCED_CUSTOM_ROUTE_SUMMARY_LABELS = [(js ''/v1/chat/completions'', js ''OpenAI Chat'')]"

definition ADVANCED_CUSTOM_MODEL_REGEX_PREFIX :: jstr where
  "ADVANCED_CUSTOM_MODEL_REGEX_PREFIX = js ''re:''"

datatype model_rule_kind = RuleExact | RuleRegex

definition openAIChatPath :: jstr where "openAIChatPath = js ''/v1/chat/completions''"
definition openAIResponsesPath :: jstr where "openAIResponsesPath = js ''/v1/responses''"
definition claudeMessagesPath :: jstr where "claudeMessagesPath = js ''/v1/messages''"
definition geminiGenerateContentPath :: jstr where
  "geminiGenerateContentPath = js ''/v1beta/models/{model}:generateContent''"

definition bearerHeaderAuth :: route_auth where
  "bearerHeaderAuth = \<lparr>auth_type = Some (text_value ''header''), auth_name = Some (text_value ''Authorization''),
     auth_value = Some (text_value ''Bearer {api_key}'')\<rparr>"

definition apiKeyHeaderAuth :: route_auth where
  "apiKeyHeaderAuth = \<lparr>auth_type = Some (text_value ''header''), auth_name = Some (text_value ''x-api-key''),
     auth_value = Some (text_value ''{api_key}'')\<rparr>"

definition geminiQueryAuth :: route_auth where
  "geminiQueryAuth = \<lparr>auth_type = Some (text_value ''query''), auth_name = Some (text_value ''key''),
     auth_value = Some (text_value ''{api_key}'')\<rparr>"

section \<open>Templates\<close>

record template_option =
  to_value :: jstr
  to_label :: jstr
  to_config :: advanced_custom_config

definition native_route :: "string \<Rightarrow> route_auth \<Rightarrow> advanced_route" where
  "native_route path a = \<lparr>incoming_path = text_value path, upstream_path = js path,
     converter = text_value ''none'', models = None, auth = Some a\<rparr>"

definition ADVANCED_CUSTOM_TEMPLATE_OPTIONS :: "template_option list" where
  "ADVANCED_CUSTOM_TEMPLATE_OPTIONS =
    [\<lparr>to_value = js ''official_openai_chat'', to_label = js ''Official OpenAI Chat'',
      to_config = \<lparr>advanced_routes = [native_route ''/v1/chat/completions'' bearerHeaderAuth]\<rparr>\<rparr>,
     \<lparr>to_value = js ''official_openai_responses'', to_label = js ''Official OpenAI Responses'',
      to_config = \<lparr>advanced_routes = [native_route ''/v1/responses'' bearerHeaderAuth]\<rparr>\<rparr>,
     \<lparr>to_value = js ''official_openai_embeddings'', to_label = js ''Official OpenAI Embeddings'',
      to_config = \<lparr>advanced_routes = [native_route ''/v1/embeddings'' bearerHeaderAuth]\<rparr>\<rparr>,
     \<lparr>to_value = js ''official_openai_images'', to_label = js ''Official OpenAI Images'',
      to_config = \<lparr>advanced_routes = [native_route ''/v1/images/generations'' bearerHeaderAuth,
        native_route ''/v1/images/edits'' bearerHeaderAuth]\<rparr>\<rparr>,
     \<lparr>to_value = js ''official_claude_messages'', to_label = js ''Official Claude Messages'',
      to_config = \<lparr>advanced_routes = [native_route ''/v1/messages'' apiKeyHeaderAuth]\<rparr>\<rparr>,
     \<lparr>to_value = js ''official_gemini_native'', to_label = js ''Official Gemini Native'',
      to_config = \<lparr>advanced_routes = [native_route ''/v1beta/models/{model}:generateContent'' geminiQueryAuth,
        native_route ''/v1beta/models/{model}:embedContent'' geminiQueryAuth,
        native_route ''/v1beta/models/{model}:batchEmbedContents'' geminiQueryAuth]\<rparr>\<rparr>,
     \<lparr>to_value = js ''official_gemini_from_openai_chat'', to_label = js ''Official Gemini from OpenAI Chat'',
      to_config = \<lparr>advanced_routes =
        [\<lparr>incoming_path = text_value ''/v1/chat/completions'',
          upstream_path = js ''/v1beta/models/{model}:generateContent'',
          converter = text_value ''openai_chat_completions_to_gemini_generate_content'', models = None,
          auth = Some geminiQueryAuth\<rparr>]\<rparr>\<rparr>]"

text \<open>Values are immutable here, so the structured clone is the value itself.\<close>

definition cloneAdvancedCustomConfig :: "advanced_custom_config \<Rightarrow> advanced_custom_config" where
  "cloneAdvancedCustomConfig config = config"

definition getAdvancedCustomTemplateConfig :: "jstr \<Rightarrow> advanced_custom_config" where
  "getAdvancedCustomTemplateConfig templateKey =
     cloneAdvancedCustomConfig (to_config
       (nullish_or (find (\<lambda>option. to_value option = templateKey) ADVANCED_CUSTOM_TEMPLATE_OPTIONS)
         (hd ADVANCED_CUSTOM_TEMPLATE_OPTIONS)))"

definition createAdvancedCustomRoute :: advanced_route where
  "createAdvancedCustomRoute = \<lparr>incoming_path = JStr openAIChatPath, upstream_path = openAIChatPath,
     converter = text_value ''none'', models = None, auth = None\<rparr>"

definition createAdvancedCustomConfig :: advanced_custom_config where
  "createAdvancedCustomConfig = \<lparr>advanced_routes = [createAdvancedCustomRoute]\<rparr>"

section \<open>Converters and paths\<close>

definition isConverterPathAllowed :: "jstr \<Rightarrow> json \<Rightarrow> bool" where
  "isConverterPathAllowed incomingPath conv =
     (if conv = text_value ''none'' then True
      else if conv = text_value ''anthropic_messages_to_openai_chat_completions''
      then incomingPath = js ''/v1/messages''
      else if conv = text_value ''openai_chat_completions_to_anthropic_messages''
        \<or> conv = text_value ''openai_chat_completions_to_openai_responses''
        \<or> conv = text_value ''openai_chat_completions_to_gemini_generate_content''
      then incomingPath = js ''/v1/chat/completions''
      else if conv = text_value ''openai_responses_to_openai_chat_completions''
      then incomingPath = js ''/v1/responses''
      else if conv = text_value ''openai_responses_to_gemini_generate_content''
      then incomingPath = js ''/v1/responses''
      else str_includes incomingPath (js '':generateContent'')
        \<or> str_includes incomingPath (js '':streamGenerateContent''))"

definition getAdvancedCustomNativeAuth :: "jstr \<Rightarrow> route_auth" where
  "getAdvancedCustomNativeAuth incomingPath =
     (if incomingPath = claudeMessagesPath then apiKeyHeaderAuth
      else if str_includes incomingPath (js '':generateContent'')
        \<or> str_includes incomingPath (js '':streamGenerateContent'')
        \<or> str_includes incomingPath (js '':embedContent'')
        \<or> str_includes incomingPath (js '':batchEmbedContents'')
      then geminiQueryAuth
      else bearerHeaderAuth)"

definition getAdvancedCustomIncomingPathOptions :: "json \<Rightarrow> path_option list" where
  "getAdvancedCustomIncomingPathOptions conv =
     filter (\<lambda>option. isConverterPathAllowed (po_value option) conv) ADVANCED_CUSTOM_INCOMING_PATH_OPTIONS"

definition getDefaultAdvancedCustomIncomingPath :: "json \<Rightarrow> jstr" where
  "getDefaultAdvancedCustomIncomingPath conv =
     (case getAdvancedCustomIncomingPathOptions conv of
        [] \<Rightarrow> js ''/v1/chat/completions''
      | option # _ \<Rightarrow> or_str (po_value option) (js ''/v1/chat/completions''))"

definition isAdvancedCustomIncomingPathAllowed :: "jstr \<Rightarrow> json \<Rightarrow> bool" where
  "isAdvancedCustomIncomingPathAllowed incomingPath conv = isConverterPathAllowed incomingPath conv"

definition getAdvancedCustomConverterDefaults :: "json \<Rightarrow> jstr \<Rightarrow> jstr \<times> route_auth" where
  "getAdvancedCustomConverterDefaults conv incomingPath =
     (let normalizedIncomingPath = or_str (trim incomingPath) (getDefaultAdvancedCustomIncomingPath conv) in
      if conv = text_value ''none''
      then (normalizedIncomingPath, getAdvancedCustomNativeAuth normalizedIncomingPath)
      else if conv = text_value ''anthropic_messages_to_openai_chat_completions''
        \<or> conv = text_value ''gemini_generate_content_to_openai_chat_completions''
        \<or> conv = text_value ''openai_responses_to_openai_chat_completions''
      then (openAIChatPath, bearerHeaderAuth)
      else if conv = text_value ''openai_chat_completions_to_openai_responses''
      then (openAIResponsesPath, bearerHeaderAuth)
      else if conv = text_value ''openai_chat_completions_to_anthropic_messages''
      then (claudeMessagesPath, apiKeyHeaderAuth)
      else if conv = text_value ''openai_chat_completions_to_gemini_generate_content''
        \<or> conv = text_value ''openai_responses_to_gemini_generate_content''
      then (geminiGenerateContentPath, geminiQueryAuth)
      else (or_str normalizedIncomingPath openAIChatPath, getAdvancedCustomNativeAuth normalizedIncomingPath))"

definition getAdvancedCustomUpstreamPathPlaceholder :: "json \<Rightarrow> jstr option \<Rightarrow> jstr" where
  "getAdvancedCustomUpstreamPathPlaceholder conv incomingPath =
     fst (getAdvancedCustomConverterDefaults conv
       (nullish_or incomingPath (getDefaultAdvancedCustomIncomingPath conv)))"

definition getAdvancedCustomConverterOptions :: "jstr \<Rightarrow> converter_option list" where
  "getAdvancedCustomConverterOptions incomingPath =
     filter (\<lambda>option. co_value option = js ''none''
         \<or> isConverterPathAllowed (trim incomingPath) (JStr (co_value option)))
       ADVANCED_CUSTOM_CONVERTER_OPTIONS"

definition getAdvancedCustomIncomingPathLabel :: "jstr \<Rightarrow> jstr" where
  "getAdvancedCustomIncomingPathLabel v =
     (case find (\<lambda>option. po_value option = v) ADVANCED_CUSTOM_INCOMING_PATH_OPTIONS of
        None \<Rightarrow> v
      | Some option \<Rightarrow> or_str (po_label option) v)"

section \<open>Normalisation, reading and printing\<close>

definition getAdvancedCustomRouteUpstreamPath :: "json \<Rightarrow> jstr option" where
  "getAdvancedCustomRouteUpstreamPath route = json_trim (json_or (json_get (js ''upstream_path'') route) (JStr []))"

fun normalizeAdvancedCustomRouteModels :: "json option \<Rightarrow> jstr list option" where
  "normalizeAdvancedCustomRouteModels (Some (JArr ms)) =
     map_option (filter (\<lambda>m. m \<noteq> [])) (map_throwing json_trim ms)"
| "normalizeAdvancedCustomRouteModels _ = Some []"

definition normalized_auth :: "json \<Rightarrow> route_auth" where
  "normalized_auth a =
     \<lparr>auth_type = json_get (js ''type'') a,
      auth_name = Some (json_or (json_get (js ''name'') a) (JStr [])),
      auth_value = Some (json_or (json_get (js ''value'') a) (JStr []))\<rparr>"

definition normalizeAdvancedCustomRoute :: "json \<Rightarrow> advanced_route option" where
  "normalizeAdvancedCustomRoute route =
     (if route = JNull then None
      else do {
        upstream \<leftarrow> getAdvancedCustomRouteUpstreamPath route;
        ms \<leftarrow> normalizeAdvancedCustomRouteModels (json_get (js ''models'') route);
        Some \<lparr>incoming_path = json_or (json_get (js ''incoming_path'') route) (JStr []),
              upstream_path = upstream,
              converter = json_or (json_get (js ''converter'') route) (text_value ''none''),
              models = (if 0 < length ms then Some ms else None),
              auth = (case json_get (js ''auth'') route of
                  None \<Rightarrow> None
                | Some a \<Rightarrow> if json_truthy a then Some (normalized_auth a) else None)\<rparr> })"

definition normalizeAdvancedCustomConfig :: "json \<Rightarrow> advanced_custom_config option" where
  "normalizeAdvancedCustomConfig config =
     (if config = JNull then None
      else case json_get (js ''advanced_routes'') config of
        Some (JArr routes) \<Rightarrow>
          do { rs \<leftarrow> map_throwing normalizeAdvancedCustomRoute routes; Some \<lparr>advanced_routes = rs\<rparr> }
      | _ \<Rightarrow> Some \<lparr>advanced_routes = []\<rparr>)"

text \<open>\<open>None\<close> is \<open>null\<close>: nothing to read, no JSON, no object, or an exception that the \<open>catch\<close> swallows.\<close>

definition parseAdvancedCustomConfig :: "jstr option \<Rightarrow> advanced_custom_config option" where
  "parseAdvancedCustomConfig v =
     (case v of
        None \<Rightarrow> None
      | Some s \<Rightarrow>
        if trim s = [] then None
        else case JSON_parse s of
          None \<Rightarrow> None
        | Some parsed \<Rightarrow> if \<not> json_is_plain_object parsed then None else normalizeAdvancedCustomConfig parsed)"

definition stringifyAdvancedCustomConfig :: "json \<Rightarrow> jstr option" where
  "stringifyAdvancedCustomConfig config =
     map_option (\<lambda>c. JSON_stringify (js ''  '') (config_value c)) (normalizeAdvancedCustomConfig config)"

definition parseAdvancedCustomRouteModels :: "jstr \<Rightarrow> jstr list" where
  "parseAdvancedCustomRouteModels v = uniq (filter (\<lambda>m. m \<noteq> []) (map trim (split_on 44 v)))"

definition getAdvancedCustomModelRuleKind :: "jstr \<Rightarrow> model_rule_kind" where
  "getAdvancedCustomModelRuleKind modelRule =
     (if startsWith modelRule ADVANCED_CUSTOM_MODEL_REGEX_PREFIX then RuleRegex else RuleExact)"

definition getAdvancedCustomRegexModelPattern :: "jstr \<Rightarrow> jstr" where
  "getAdvancedCustomRegexModelPattern modelRule = drop (length ADVANCED_CUSTOM_MODEL_REGEX_PREFIX) modelRule"

section \<open>Validation\<close>

definition isFullHttpURLOrAbsolutePath :: "url_api \<Rightarrow> jstr \<Rightarrow> bool" where
  "isFullHttpURLOrAbsolutePath URL v =
     (if startsWith v (js ''/'') then \<not> startsWith v (js ''//'')
      else case URL v of
        None \<Rightarrow> False
      | Some parsed \<Rightarrow> url_host parsed \<noteq> []
          \<and> (url_protocol parsed = js ''http:'' \<or> url_protocol parsed = js ''https:''))"

definition isAdvancedCustomConverter :: "json \<Rightarrow> bool" where
  "isAdvancedCustomConverter v = list_ex (\<lambda>option. JStr (co_value option) = v) ADVANCED_CUSTOM_CONVERTER_OPTIONS"

text \<open>\<open>v?.trim()\<close>: \<open>null\<close> and \<open>undefined\<close> give \<open>undefined\<close>.\<close>

fun blank_value :: "json option \<Rightarrow> bool option" where
  "blank_value None = Some True"
| "blank_value (Some JNull) = Some True"
| "blank_value (Some v) = map_option (\<lambda>s. s = []) (json_trim v)"

definition validateRouteAuth :: "route_auth option \<Rightarrow> jstr option option" where
  "validateRouteAuth a =
     (case a of
        None \<Rightarrow> Some None
      | Some a \<Rightarrow>
        if auth_type a = Some (text_value ''none'') then Some None
        else if auth_type a \<noteq> Some (text_value ''header'') \<and> auth_type a \<noteq> Some (text_value ''query'')
        then Some (Some (js ''Auth type is invalid''))
        else do {
          no_name \<leftarrow> blank_value (auth_name a);
          if no_name then Some (Some (js ''Auth name is required''))
          else do {
            no_value \<leftarrow> blank_value (auth_value a);
            if no_value then Some (Some (js ''Auth value is required'')) else Some None } })"

record path_models =
  catchAllIndex :: "nat option"
  pm_models :: "(jstr, nat) jmap"

definition route_error :: "nat \<Rightarrow> string \<Rightarrow> validation_error" where
  "route_error index message = \<lparr>e_message = js message, e_routeIndex = Some index\<rparr>"

fun route_models_loop ::
  "nat \<Rightarrow> jstr list \<Rightarrow> jstr list \<Rightarrow> (jstr, nat) jmap \<Rightarrow> validation_error option \<times> (jstr, nat) jmap" where
  "route_models_loop index [] seenInRoute ms = (None, ms)"
| "route_models_loop index (model # rest) seenInRoute ms =
     (if getAdvancedCustomModelRuleKind model = RuleRegex \<and> getAdvancedCustomRegexModelPattern model = []
      then (Some (route_error index ''Model regex cannot be empty''), ms)
      else if model \<in> set seenInRoute
      then (Some (route_error index ''Duplicate model in route models''), ms)
      else if map_get ms model \<noteq> None
      then (Some (route_error index ''Route models must be unique for the same incoming path''), ms)
      else route_models_loop index rest (model # seenInRoute) (map_set model index ms))"

definition validateAdvancedCustomRouteModels ::
  "nat \<Rightarrow> jstr \<Rightarrow> jstr list \<Rightarrow> (jstr, path_models) jmap \<Rightarrow> validation_error option \<times> (jstr, path_models) jmap" where
  "validateAdvancedCustomRouteModels index incomingPath ms byPath =
     (let state = nullish_or (map_get byPath incomingPath) \<lparr>catchAllIndex = None, pm_models = []\<rparr>;
          byPath = (if map_get byPath incomingPath = None then map_set incomingPath state byPath else byPath) in
      if ms = []
      then (if catchAllIndex state \<noteq> None
            then (Some (route_error index ''Only one catch-all route is allowed for the same incoming path''), byPath)
            else (None, map_set incomingPath (state\<lparr>catchAllIndex := Some index\<rparr>) byPath))
      else if catchAllIndex state \<noteq> None
      then (Some (route_error index ''Catch-all route must be last for the same incoming path''), byPath)
      else (case route_models_loop index ms [] (pm_models state) of
              (error, ms') \<Rightarrow> (error, map_set incomingPath (state\<lparr>pm_models := ms'\<rparr>) byPath)))"

text \<open>One pass of the loop over the routes: the error it returns, if any, and the map it leaves.\<close>

definition validate_route ::
  "url_api \<Rightarrow> nat \<Rightarrow> advanced_route \<Rightarrow> (jstr, path_models) jmap
     \<Rightarrow> (validation_error option \<times> (jstr, path_models) jmap) option" where
  "validate_route URL index route byPath = do {
     incomingPath \<leftarrow> json_trim (incoming_path route);
     upstreamPath \<leftarrow> getAdvancedCustomRouteUpstreamPath (route_value route);
     routeModels \<leftarrow> normalizeAdvancedCustomRouteModels (json_get (js ''models'') (route_value route));
     let conv = json_or (Some (converter route)) (text_value ''none'');
     if incomingPath = [] then Some (Some (route_error index ''Incoming path is required''), byPath)
     else if \<not> startsWith incomingPath (js ''/'')
     then Some (Some (route_error index ''Incoming path must start with /''), byPath)
     else if str_includes incomingPath (js ''?'')
     then Some (Some (route_error index ''Incoming path must not include query''), byPath)
     else case validateAdvancedCustomRouteModels index incomingPath routeModels byPath of
       (Some error, byPath) \<Rightarrow> Some (Some error, byPath)
     | (None, byPath) \<Rightarrow>
       if upstreamPath = [] then Some (Some (route_error index ''Upstream path is required''), byPath)
       else if \<not> isFullHttpURLOrAbsolutePath URL upstreamPath
       then Some (Some (route_error index ''Upstream path must be a full URL or a path starting with /''), byPath)
       else if \<not> isAdvancedCustomConverter conv
       then Some (Some (route_error index ''Converter is not registered''), byPath)
       else if \<not> isConverterPathAllowed incomingPath conv
       then Some (Some (route_error index ''Converter does not match incoming path''), byPath)
       else do {
         authError \<leftarrow> validateRouteAuth (auth route);
         Some (map_option (\<lambda>m. \<lparr>e_message = m, e_routeIndex = Some index\<rparr>) authError, byPath) } }"

fun validate_routes ::
  "url_api \<Rightarrow> nat \<Rightarrow> advanced_route list \<Rightarrow> (jstr, path_models) jmap \<Rightarrow> validation_error option option" where
  "validate_routes URL index [] byPath = Some None"
| "validate_routes URL index (route # rest) byPath =
     (case validate_route URL index route byPath of
        None \<Rightarrow> None
      | Some (Some error, _) \<Rightarrow> Some (Some error)
      | Some (None, byPath) \<Rightarrow> validate_routes URL (index + 1) rest byPath)"

definition validateAdvancedCustomConfig :: "url_api \<Rightarrow> json option \<Rightarrow> validation_error option option" where
  "validateAdvancedCustomConfig URL config =
     (case config of
        None \<Rightarrow> Some (Some \<lparr>e_message = js ''Advanced custom configuration is required'', e_routeIndex = None\<rparr>)
      | Some value \<Rightarrow> do {
          normalized \<leftarrow> normalizeAdvancedCustomConfig value;
          let routes = advanced_routes normalized;
          if length routes = 0
          then Some (Some \<lparr>e_message = js ''Advanced custom configuration requires at least one route'',
                           e_routeIndex = None\<rparr>)
          else validate_routes URL 0 routes [] })"

section \<open>Summaries and authentication\<close>

definition advancedCustomConfigUsesRelativeUpstreamPath :: "json option \<Rightarrow> bool option" where
  "advancedCustomConfigUsesRelativeUpstreamPath config =
     (case config of
        None \<Rightarrow> Some False
      | Some value \<Rightarrow> do {
          normalized \<leftarrow> normalizeAdvancedCustomConfig value;
          paths \<leftarrow> map_throwing (\<lambda>r. getAdvancedCustomRouteUpstreamPath (route_value r)) (advanced_routes normalized);
          Some (list_ex (\<lambda>p. startsWith p (js ''/'')) paths) })"

text \<open>\<open>None\<close> inside is the \<open>null\<close> of a route without a path. The table is read at its own
  properties; the members every object inherits are no paths.\<close>

definition getAdvancedCustomRouteSummaryLabel :: "advanced_route \<Rightarrow> jstr option option" where
  "getAdvancedCustomRouteSummaryLabel route = do {
     incomingPath \<leftarrow> json_trim (incoming_path route);
     if incomingPath = [] then Some None
     else Some (Some (case map_get ADVANCED_CUSTOM_ROUTE_SUMMARY_LABELS incomingPath of
         None \<Rightarrow> getAdvancedCustomIncomingPathLabel incomingPath
       | Some label \<Rightarrow> or_str label (getAdvancedCustomIncomingPathLabel incomingPath))) }"

fun label_loop :: "advanced_route list \<Rightarrow> jstr list \<Rightarrow> jstr list option" where
  "label_loop [] labels = Some labels"
| "label_loop (route # rest) labels =
     (case getAdvancedCustomRouteSummaryLabel route of
        None \<Rightarrow> None
      | Some None \<Rightarrow> label_loop rest labels
      | Some (Some label) \<Rightarrow>
          if label = [] \<or> label \<in> set labels then label_loop rest labels else label_loop rest (labels @ [label]))"

record config_stats =
  routeCount :: nat
  cs_valid :: bool
  routeTypeLabels :: "jstr list"

definition getAdvancedCustomStats :: "url_api \<Rightarrow> jstr option \<Rightarrow> config_stats option" where
  "getAdvancedCustomStats URL v =
     (case parseAdvancedCustomConfig v of
        None \<Rightarrow> Some \<lparr>routeCount = 0, cs_valid = False, routeTypeLabels = []\<rparr>
      | Some config \<Rightarrow> do {
          normalized \<leftarrow> normalizeAdvancedCustomConfig (config_value config);
          labels \<leftarrow> label_loop (advanced_routes normalized) [];
          error \<leftarrow> validateAdvancedCustomConfig URL (Some (config_value normalized));
          Some \<lparr>routeCount = length (advanced_routes normalized), cs_valid = (error = None),
                routeTypeLabels = labels\<rparr> })"

definition getAdvancedCustomAuthMode :: "advanced_route \<Rightarrow> json" where
  "getAdvancedCustomAuthMode route =
     json_or (case auth route of None \<Rightarrow> None | Some a \<Rightarrow> auth_type a) (text_value ''default'')"

definition auth_field :: "(route_auth \<Rightarrow> json option) \<Rightarrow> route_auth option \<Rightarrow> string \<Rightarrow> json" where
  "auth_field f previousAuth d = json_or (case previousAuth of None \<Rightarrow> None | Some a \<Rightarrow> f a) (text_value d)"

fun buildAdvancedCustomAuth :: "auth_mode \<Rightarrow> route_auth option \<Rightarrow> route_auth option" where
  "buildAdvancedCustomAuth ModeDefault previousAuth = None"
| "buildAdvancedCustomAuth ModeNone previousAuth =
     Some \<lparr>auth_type = Some (text_value ''none''), auth_name = None, auth_value = None\<rparr>"
| "buildAdvancedCustomAuth ModeHeader previousAuth =
     Some \<lparr>auth_type = Some (text_value ''header''),
           auth_name = Some (auth_field auth_name previousAuth ''Authorization''),
           auth_value = Some (auth_field auth_value previousAuth ''Bearer {api_key}'')\<rparr>"
| "buildAdvancedCustomAuth ModeQuery previousAuth =
     Some \<lparr>auth_type = Some (text_value ''query''),
           auth_name = Some (auth_field auth_name previousAuth ''api_key''),
           auth_value = Some (auth_field auth_value previousAuth ''{api_key}'')\<rparr>"

section \<open>Records as values\<close>

lemma map_throwing_map:
  "(\<And>x. x \<in> set xs \<Longrightarrow> f (g x) = Some (h x)) \<Longrightarrow> map_throwing f (map g xs) = Some (map h xs)"
  by (induction xs) simp_all

lemma map_throwing_SomeD: "map_throwing f xs = Some ys \<Longrightarrow> y \<in> set ys \<Longrightarrow> \<exists>x\<in>set xs. f x = Some y"
  by (induction xs arbitrary: ys) (auto simp: bind_eq_Some_conv)

lemma map_throwing_trim [simp]: "map_throwing json_trim (map JStr ms) = Some (map trim ms)"
  by (rule map_throwing_map) simp

lemma route_fields [simp]:
  "json_get (js ''incoming_path'') (route_value r) = Some (incoming_path r)"
  "json_get (js ''upstream_path'') (route_value r) = Some (JStr (upstream_path r))"
  "json_get (js ''converter'') (route_value r) = Some (converter r)"
  "json_get (js ''models'') (route_value r) = map_option (\<lambda>ms. JArr (map JStr ms)) (models r)"
  "json_get (js ''auth'') (route_value r) = map_option auth_object (auth r)"
  by (cases "models r"; cases "auth r"; simp add: route_value_def defined_fields_def List.map_filter_simps)+

lemma auth_fields [simp]:
  "json_get (js ''type'') (auth_object a) = auth_type a"
  "json_get (js ''name'') (auth_object a) = auth_name a"
  "json_get (js ''value'') (auth_object a) = auth_value a"
  by (cases "auth_type a"; cases "auth_name a"; cases "auth_value a";
      simp add: auth_object_def defined_fields_def List.map_filter_simps)+

lemma value_shapes [simp]: "route_value r \<noteq> JNull" "config_value c \<noteq> JNull" "json_truthy (auth_object a)"
  "json_is_plain_object (config_value c)"
  by (simp_all add: route_value_def config_value_def auth_object_def)

lemma config_field [simp]: "json_get (js ''advanced_routes'') (config_value c) = Some (JArr (map route_value (advanced_routes c)))"
  by (simp add: config_value_def)

lemma json_or_cases: "json_truthy (json_or v d) \<or> json_or v d = d"
  by (simp add: json_or_def split: option.split)

lemma json_or_simps [simp]:
  "json_truthy j \<Longrightarrow> json_or (Some j) d = j" "json_or (Some d) d = d" "json_or None d = d" "json_or (Some (JStr s)) (JStr []) = JStr s"
  by (simp_all add: json_or_def)

lemma trim_ne [simp]: "trim s \<noteq> [] \<Longrightarrow> s \<noteq> []"
  by auto

lemma upstream_value [simp]: "getAdvancedCustomRouteUpstreamPath (route_value r) = Some (trim (upstream_path r))"
  by (simp add: getAdvancedCustomRouteUpstreamPath_def)

section \<open>Normal forms\<close>

definition normal_field :: "json option \<Rightarrow> bool" where
  "normal_field v \<longleftrightarrow> (\<exists>j. v = Some j \<and> (json_truthy j \<or> j = JStr []))"

definition normal_route :: "advanced_route \<Rightarrow> bool" where
  "normal_route r \<longleftrightarrow> normal_field (Some (incoming_path r)) \<and> trim (upstream_path r) = upstream_path r
     \<and> json_truthy (converter r)
     \<and> (case models r of None \<Rightarrow> True | Some ms \<Rightarrow> ms \<noteq> [] \<and> (\<forall>m\<in>set ms. m \<noteq> [] \<and> trim m = m))
     \<and> (case auth r of None \<Rightarrow> True | Some a \<Rightarrow> normal_field (auth_name a) \<and> normal_field (auth_value a))"

lemma normal_field_or [simp]: "normal_field (Some (json_or v (JStr [])))"
  using json_or_cases [of v "JStr []"] by (simp add: normal_field_def)

lemma normal_field_fix: "normal_field v \<Longrightarrow> Some (json_or v (JStr [])) = v"
  by (auto simp: normal_field_def)

lemma normal_field_keep [simp]: "normal_field (Some j) \<Longrightarrow> json_or (Some j) (JStr []) = j"
  by (auto simp: normal_field_def)

lemma json_trim_normal: "json_trim v = Some s \<Longrightarrow> trim s = s"
  by (cases v) auto

lemma models_normal:
  assumes "normalizeAdvancedCustomRouteModels v = Some ms" "m \<in> set ms"
  shows "m \<noteq> [] \<and> trim m = m"
proof -
  obtain xs ys where "map_throwing json_trim xs = Some ys" "ms = filter (\<lambda>m. m \<noteq> []) ys"
    using assms by (cases v rule: normalizeAdvancedCustomRouteModels.cases) auto
  then show ?thesis using assms(2) by (auto dest: map_throwing_SomeD json_trim_normal)
qed

lemma normalize_route_normal: "normalizeAdvancedCustomRoute v = Some r \<Longrightarrow> normal_route r"
  using json_or_cases [of "json_get (js ''converter'') v" "text_value ''none''"]
  by (auto simp: normalizeAdvancedCustomRoute_def normal_route_def getAdvancedCustomRouteUpstreamPath_def
      normalized_auth_def bind_eq_Some_conv json_trim_normal dest: models_normal split: if_splits option.splits)

lemma models_fix: "\<forall>m\<in>set ms. m \<noteq> [] \<and> trim m = m \<Longrightarrow>
    normalizeAdvancedCustomRouteModels (Some (JArr (map JStr ms))) = Some ms"
  by (induction ms) auto

lemma normalize_route_fix: "normal_route r \<Longrightarrow> normalizeAdvancedCustomRoute (route_value r) = Some r"
  by (cases r) (auto simp: normalizeAdvancedCustomRoute_def normal_route_def normalized_auth_def normal_field_fix
      intro!: map_idI split: option.splits)

lemma normalize_config_normal:
  "normalizeAdvancedCustomConfig v = Some c \<Longrightarrow> r \<in> set (advanced_routes c) \<Longrightarrow> normal_route r"
  by (auto simp: normalizeAdvancedCustomConfig_def bind_eq_Some_conv split: if_splits option.splits json.splits
      dest!: map_throwing_SomeD intro: normalize_route_normal)

lemma normalize_config_fix:
  "\<forall>r\<in>set (advanced_routes c). normal_route r \<Longrightarrow> normalizeAdvancedCustomConfig (config_value c) = Some c"
  using map_throwing_map [of "advanced_routes c" normalizeAdvancedCustomRoute route_value "\<lambda>r. r"]
  by (simp add: normalizeAdvancedCustomConfig_def normalize_route_fix)

lemma normalize_idem:
  "normalizeAdvancedCustomConfig v = Some c \<Longrightarrow> normalizeAdvancedCustomConfig (config_value c) = Some c"
  by (simp add: normalize_config_fix normalize_config_normal)

section \<open>Printing and reading\<close>

lemma serialisable_get: "serialisable j \<Longrightarrow> json_get k j = Some x \<Longrightarrow> serialisable x"
  by (cases j) (auto dest: map_of_SomeD)

lemma serialisable_or: "(\<And>j. v = Some j \<Longrightarrow> serialisable j) \<Longrightarrow> serialisable d \<Longrightarrow> serialisable (json_or v d)"
  by (simp add: json_or_def split: option.split)

lemma serialisable_or_get [simp]: "serialisable v \<Longrightarrow> serialisable d \<Longrightarrow> serialisable (json_or (json_get k v) d)"
  by (rule serialisable_or) (rule serialisable_get)

lemma js_code_units [simp]: "\<forall>c\<in>set (js s). code_unit c"
  using code_units_js [of s] by (simp only: code_units_def)

lemma set_trim: "set (trim s) \<subseteq> set s"
  by (metis set_dropWhileD set_rev subsetI trim_def)

lemma serialisable_trim: "serialisable v \<Longrightarrow> json_trim v = Some s \<Longrightarrow> serialisable (JStr s)"
  using set_trim by (cases v) auto

lemma serialisable_fields:
  assumes "distinct (map fst fs)" "\<forall>(k, v)\<in>set fs. code_units k \<and> (\<forall>j. v = Some j \<longrightarrow> serialisable j)"
  shows "serialisable (JObj (defined_fields fs))"
proof -
  have "fst ` set (defined_fields fs) \<subseteq> fst ` set fs" for fs
    by (force simp: defined_fields_def map_filter_def)
  then have "distinct (map fst (defined_fields fs))" using assms(1)
  proof (induction fs)
    case (Cons f fs)
    then show ?case by (cases f; cases "snd f") (force simp: defined_fields_def List.map_filter_simps)+
  qed (simp add: defined_fields_def List.map_filter_simps)
  moreover have "\<forall>p\<in>set (defined_fields fs). code_units (fst p) \<and> serialisable (snd p)"
    using assms(2) by (force simp: defined_fields_def map_filter_def)
  ultimately show ?thesis by (simp add: code_units_def)
qed

lemma serialisable_auth: "serialisable v \<Longrightarrow> serialisable (auth_object (normalized_auth v))"
  unfolding auth_object_def normalized_auth_def
  by (rule serialisable_fields) (auto intro: serialisable_get serialisable_or)

lemma serialisable_models:
  assumes "normalizeAdvancedCustomRouteModels v = Some ms" "\<And>j. v = Some j \<Longrightarrow> serialisable j"
  shows "serialisable (JArr (map JStr ms))"
proof (cases v rule: normalizeAdvancedCustomRouteModels.cases)
  case (1 xs)
  then obtain ys where y: "map_throwing json_trim xs = Some ys" "ms = filter (\<lambda>m. m \<noteq> []) ys" using assms(1) by auto
  have "serialisable (JStr m)" if "m \<in> set ms" for m
    using that y assms(2) 1 map_throwing_SomeD [of json_trim xs ys m] serialisable_trim by fastforce
  then show ?thesis by simp
qed (use assms in auto)

lemma serialisable_route:
  assumes "normalizeAdvancedCustomRoute v = Some r" "serialisable v"
  shows "serialisable (route_value r)"
proof -
  obtain u ms where u: "getAdvancedCustomRouteUpstreamPath v = Some u"
    and ms: "normalizeAdvancedCustomRouteModels (json_get (js ''models'') v) = Some ms"
    and r: "incoming_path r = json_or (json_get (js ''incoming_path'') v) (JStr [])" "upstream_path r = u"
      "converter r = json_or (json_get (js ''converter'') v) (text_value ''none'')"
      "models r = (if 0 < length ms then Some ms else None)"
      "auth r = (case json_get (js ''auth'') v of None \<Rightarrow> None
         | Some a \<Rightarrow> if json_truthy a then Some (normalized_auth a) else None)"
    using assms(1) by (auto simp: normalizeAdvancedCustomRoute_def bind_eq_Some_conv split: if_splits)
  have "serialisable (JStr u)" using u unfolding getAdvancedCustomRouteUpstreamPath_def
    by (rule serialisable_trim [rotated, where v = "json_or (json_get (js ''upstream_path'') v) (JStr [])"])
       (simp add: assms(2))
  moreover have "serialisable (JArr (map JStr ms))" by (rule serialisable_models [OF ms]) (rule serialisable_get [OF assms(2)])
  moreover have "serialisable (auth_object a)" if "auth r = Some a" for a
    using that serialisable_get [OF assms(2)] serialisable_auth by (auto simp: r split: option.splits if_splits)
  ultimately show ?thesis unfolding route_value_def
    by (intro serialisable_fields) (auto simp: r(1-4) assms(2) split: if_splits)
qed

lemma serialisable_config:
  assumes "normalizeAdvancedCustomConfig v = Some c" "serialisable v"
  shows "serialisable (config_value c)"
proof -
  have "serialisable (route_value r)" if mem: "r \<in> set (advanced_routes c)" for r
  proof -
    obtain xs where "json_get (js ''advanced_routes'') v = Some (JArr xs)" "map_throwing normalizeAdvancedCustomRoute xs = Some (advanced_routes c)"
      using assms(1) mem
      by (cases "json_get (js ''advanced_routes'') v" rule: normalizeAdvancedCustomRouteModels.cases)
         (auto simp: normalizeAdvancedCustomConfig_def bind_eq_Some_conv split: if_splits)
    then show ?thesis using mem map_throwing_SomeD serialisable_get [OF assms(2)] serialisable_route by fastforce
  qed
  then show ?thesis using code_units_js [of "''advanced_routes''"] by (simp add: config_value_def code_units_def)
qed

lemma printed_not_blank: "trim (JSON_stringify gap (config_value c)) \<noteq> []"
  by (simp add: JSON_stringify_def config_value_def trim_eq_Nil is_ws_def)

text \<open>C13. Reading a printed configuration gives its normal form, whatever the configuration held, and
  the normal form is stable: normalising, printing or reading it again changes nothing.\<close>

theorem config_text_roundtrip:
  assumes "serialisable v" "normalizeAdvancedCustomConfig v = Some c"
  shows "(\<exists>text. stringifyAdvancedCustomConfig v = Some text \<and> parseAdvancedCustomConfig (Some text) = Some c
      \<and> stringifyAdvancedCustomConfig (config_value c) = Some text)
    \<and> normalizeAdvancedCustomConfig (config_value c) = Some c"
proof -
  have two: "js ''  '' = [32, 32]" by code_simp
  have "JSON_parse (JSON_stringify (js ''  '') (config_value c)) = Some (config_value c)"
    unfolding two by (rule indented.decode_encode) (rule serialisable_config [OF assms(2,1)])
  then show ?thesis using assms(2) normalize_idem [OF assms(2)] printed_not_blank
    by (simp add: stringifyAdvancedCustomConfig_def parseAdvancedCustomConfig_def)
qed

definition untidy_config :: json where
  "untidy_config = JObj [(js ''advanced_routes'', JArr
     [JObj [(js ''upstream_path'', text_value '' /v1 ''), (js ''models'', JArr [text_value '' a '', text_value '' '']),
            (js ''auth'', JObj [(js ''type'', text_value ''none'')])]]), (js ''x'', JNull)]"

theorem config_text_roundtrip_witness:
  "\<exists>c text. stringifyAdvancedCustomConfig untidy_config = Some text \<and> parseAdvancedCustomConfig (Some text) = Some c
     \<and> map models (advanced_routes c) = [Some [js ''a'']]"
proof -
  let ?c = "the (normalizeAdvancedCustomConfig untidy_config)"
  have "serialisable untidy_config" by code_simp
  moreover have "normalizeAdvancedCustomConfig untidy_config = Some ?c" by code_simp
  moreover have "map models (advanced_routes ?c) = [Some [js ''a'']]" by code_simp
  ultimately show ?thesis using config_text_roundtrip [of untidy_config ?c] by metis
qed

section \<open>What validation decides\<close>

definition route_path :: "advanced_route \<Rightarrow> jstr" where
  "route_path r = opt_str (json_trim (incoming_path r))"

definition route_models :: "advanced_route \<Rightarrow> jstr list" where
  "route_models r = (case models r of None \<Rightarrow> [] | Some ms \<Rightarrow> ms)"

fun typed_field :: "json option \<Rightarrow> bool" where
  "typed_field (Some (JStr _)) = True"
| "typed_field v = (v = None)"

text \<open>A route as the type of the source declares it: its path and the fields of its authentication
  are strings.\<close>

definition typed_route :: "advanced_route \<Rightarrow> bool" where
  "typed_route r \<longleftrightarrow> (\<exists>s. incoming_path r = JStr s)
     \<and> (case auth r of None \<Rightarrow> True | Some a \<Rightarrow> typed_field (auth_name a) \<and> typed_field (auth_value a))"

fun has_text :: "json option \<Rightarrow> bool" where
  "has_text (Some (JStr s)) = (trim s \<noteq> [])"
| "has_text _ = False"

definition auth_ok :: "route_auth option \<Rightarrow> bool" where
  "auth_ok a = (case a of None \<Rightarrow> True | Some a \<Rightarrow>
     auth_type a = Some (text_value ''none'')
     \<or> (auth_type a = Some (text_value ''header'') \<or> auth_type a = Some (text_value ''query''))
       \<and> has_text (auth_name a) \<and> has_text (auth_value a))"

definition route_ok :: "url_api \<Rightarrow> advanced_route \<Rightarrow> bool" where
  "route_ok URL r \<longleftrightarrow> startsWith (route_path r) (js ''/'') \<and> \<not> str_includes (route_path r) (js ''?'')
     \<and> distinct (route_models r) \<and> js ''re:'' \<notin> set (route_models r)
     \<and> trim (upstream_path r) \<noteq> [] \<and> isFullHttpURLOrAbsolutePath URL (trim (upstream_path r))
     \<and> isAdvancedCustomConverter (converter r) \<and> isConverterPathAllowed (route_path r) (converter r)
     \<and> auth_ok (auth r)"

text \<open>An earlier route leaves room for a later one of the same path: it is no fallback and shares no
  model rule with it.\<close>

definition leaves_room :: "advanced_route \<Rightarrow> advanced_route \<Rightarrow> bool" where
  "leaves_room q r \<longleftrightarrow> (route_path q = route_path r \<longrightarrow>
     route_models q \<noteq> [] \<and> set (route_models q) \<inter> set (route_models r) = {})"

definition fits :: "url_api \<Rightarrow> advanced_route list \<Rightarrow> advanced_route \<Rightarrow> bool" where
  "fits URL pre r \<longleftrightarrow> route_ok URL r \<and> (\<forall>q\<in>set pre. leaves_room q r)"

definition well_routed :: "url_api \<Rightarrow> advanced_route list \<Rightarrow> bool" where
  "well_routed URL rs \<longleftrightarrow> (\<forall>r\<in>set rs. route_ok URL r) \<and> sorted_wrt leaves_room rs"

lemma well_routed_simps [simp]:
  "well_routed URL []" "well_routed URL (rs @ [r]) \<longleftrightarrow> well_routed URL rs \<and> fits URL rs r"
  by (auto simp: well_routed_def fits_def sorted_wrt_append)

text \<open>The map the loop keeps describes the routes it has passed.\<close>

definition summarises :: "path_models \<Rightarrow> jstr \<Rightarrow> advanced_route list \<Rightarrow> bool" where
  "summarises st p pre \<longleftrightarrow>
     (catchAllIndex st = None \<longleftrightarrow> (\<forall>q\<in>set pre. route_path q = p \<longrightarrow> route_models q \<noteq> []))
     \<and> set (map_keys (pm_models st)) = (\<Union>q\<in>{q \<in> set pre. route_path q = p}. set (route_models q))"

definition describes :: "advanced_route list \<Rightarrow> (jstr, path_models) jmap \<Rightarrow> bool" where
  "describes pre byPath \<longleftrightarrow> (\<forall>p. case map_get byPath p of
       None \<Rightarrow> p \<notin> route_path ` set pre
     | Some st \<Rightarrow> summarises st p pre)"

lemma describes_Nil [simp]: "describes [] []"
  by (simp add: describes_def jm.get_empty)

lemma empty_regex: "getAdvancedCustomModelRuleKind m = RuleRegex \<and> getAdvancedCustomRegexModelPattern m = [] \<longleftrightarrow> m = js ''re:''"
  by (auto simp: getAdvancedCustomModelRuleKind_def getAdvancedCustomRegexModelPattern_def
      ADVANCED_CUSTOM_MODEL_REGEX_PREFIX_def startsWith_def)

lemma models_loop_ok:
  "fst (route_models_loop i ms seen M) = None \<longleftrightarrow>
     js ''re:'' \<notin> set ms \<and> distinct ms \<and> set ms \<inter> set seen = {} \<and> set ms \<inter> set (map_keys M) = {}"
  by (induction ms arbitrary: seen M) (auto simp: empty_regex map_get_None)

lemma models_loop_keys:
  "fst (route_models_loop i ms seen M) = None \<Longrightarrow>
     set (map_keys (snd (route_models_loop i ms seen M))) = set ms \<union> set (map_keys M)"
  by (induction ms arbitrary: seen M) (auto split: if_splits)

lemma models_loop_index: "fst (route_models_loop i ms seen M) = Some e \<Longrightarrow> e_routeIndex e = Some i"
  by (induction ms arbitrary: seen M) (auto simp: route_error_def split: if_splits)

lemma describes_set:
  assumes "describes pre byPath" "\<And>p. p \<noteq> route_path r \<Longrightarrow> map_get bp p = map_get byPath p"
    and "summarises st (route_path r) (pre @ [r])"
  shows "describes (pre @ [r]) (map_set (route_path r) st bp)"
proof -
  have "case map_get (map_set (route_path r) st bp) p of
       None \<Rightarrow> p \<notin> route_path ` set (pre @ [r]) | Some st \<Rightarrow> summarises st p (pre @ [r])" for p
  proof (cases "p = route_path r")
    case True
    then show ?thesis using assms(3) by (simp add: jm.get_put)
  next
    case False
    then have "summarises st p (pre @ [r]) \<longleftrightarrow> summarises st p pre" for st by (auto simp: summarises_def)
    moreover have "case map_get byPath p of None \<Rightarrow> p \<notin> route_path ` set pre | Some st \<Rightarrow> summarises st p pre"
      using assms(1) by (simp add: describes_def)
    ultimately show ?thesis using False assms(2) [of p] by (simp add: jm.get_put split: option.splits)
  qed
  then show ?thesis by (simp add: describes_def)
qed

lemma summary_before:
  assumes "describes pre byPath" "st = nullish_or (map_get byPath p) \<lparr>catchAllIndex = None, pm_models = []\<rparr>"
  shows "summarises st p pre"
proof -
  have "case map_get byPath p of None \<Rightarrow> p \<notin> route_path ` set pre | Some st \<Rightarrow> summarises st p pre"
    using assms(1) by (simp add: describes_def)
  then show ?thesis unfolding assms(2)
    by (cases "map_get byPath p") (auto simp: summarises_def map_keys_def image_iff)
qed

lemma summary_room:
  "summarises st (route_path r) pre \<Longrightarrow> (\<forall>q\<in>set pre. leaves_room q r) \<longleftrightarrow>
     catchAllIndex st = None \<and> set (route_models r) \<inter> set (map_keys (pm_models st)) = {}"
  by (auto simp: summarises_def leaves_room_def)

lemma validate_models:
  fixes byPath :: "(jstr, path_models) jmap"
  assumes "describes pre byPath"
    and "validateAdvancedCustomRouteModels i (route_path r) (route_models r) byPath = (res, byPath')"
  shows "(res = None \<longleftrightarrow> distinct (route_models r) \<and> js ''re:'' \<notin> set (route_models r) \<and> (\<forall>q\<in>set pre. leaves_room q r))
    \<and> (res = None \<longrightarrow> describes (pre @ [r]) byPath') \<and> (\<forall>e. res = Some e \<longrightarrow> e_routeIndex e = Some i)"
proof -
  let ?p = "route_path r"
  define st where "st = nullish_or (map_get byPath ?p) \<lparr>catchAllIndex = None, pm_models = []\<rparr>"
  define bp where "bp = (if map_get byPath ?p = None then map_set ?p st byPath else byPath)"
  note st = summary_before [OF assms(1) st_def]
  have others: "map_get bp p = map_get byPath p" if "p \<noteq> ?p" for p
    using that by (simp add: bp_def jm.get_put)
  note step = describes_set [OF assms(1) others] and room = summary_room [OF st]
  obtain err M where loop: "route_models_loop i (route_models r) [] (pm_models st) = (err, M)" by fastforce
  have v: "(res, byPath') =
     (if route_models r = []
      then (if catchAllIndex st \<noteq> None
            then (Some (route_error i ''Only one catch-all route is allowed for the same incoming path''), bp)
            else (None, map_set ?p (st\<lparr>catchAllIndex := Some i\<rparr>) bp))
      else if catchAllIndex st \<noteq> None
      then (Some (route_error i ''Catch-all route must be last for the same incoming path''), bp)
      else (err, map_set ?p (st\<lparr>pm_models := M\<rparr>) bp))"
    using assms(2) [symmetric]
    unfolding validateAdvancedCustomRouteModels_def Let_def st_def [symmetric] bp_def [symmetric] loop prod.case .
  show ?thesis
  proof (cases "route_models r = []")
    case True
    then have "summarises (st\<lparr>catchAllIndex := Some i\<rparr>) ?p (pre @ [r])" using st by (auto simp: summarises_def)
    with True show ?thesis using v room step by (auto simp: route_error_def split: if_splits)
  next
    case False
    have keys: "set (map_keys M) = set (route_models r) \<union> set (map_keys (pm_models st))" if "err = None"
      using models_loop_keys [of i "route_models r" "[]" "pm_models st"] loop that by simp
    have "summarises (st\<lparr>pm_models := M\<rparr>) ?p (pre @ [r])" if "err = None"
      using st False keys [OF that] by (auto simp: summarises_def)
    with False show ?thesis
      using v room step models_loop_ok [of i "route_models r" "[]" "pm_models st"]
        models_loop_index [of i "route_models r" "[]" "pm_models st"] loop
      by (auto simp: route_error_def split: if_splits)
  qed
qed

lemma validateRouteAuth_typed:
  assumes "typed_route r"
  shows "\<exists>res. validateRouteAuth (auth r) = Some res \<and> (res = None \<longleftrightarrow> auth_ok (auth r))"
proof (cases "auth r")
  case (Some a)
  have "typed_field (auth_name a)" "typed_field (auth_value a)" using assms Some by (simp_all add: typed_route_def)
  then show ?thesis unfolding Some
    by (cases "auth_name a" rule: typed_field.cases; cases "auth_value a" rule: typed_field.cases)
       (auto simp: validateRouteAuth_def auth_ok_def)
qed (simp add: validateRouteAuth_def auth_ok_def)

lemma normal_models: "normal_route r \<Longrightarrow>
    normalizeAdvancedCustomRouteModels (map_option (\<lambda>ms. JArr (map JStr ms)) (models r)) = Some (route_models r)"
  by (cases "models r") (auto simp: normal_route_def route_models_def intro!: map_idI)

lemma validate_route_spec:
  assumes "typed_route r" "normal_route r" "describes pre byPath"
  obtains res byPath' where "validate_route URL i r byPath = Some (res, byPath')"
    "res = None \<longleftrightarrow> fits URL pre r" "res = None \<Longrightarrow> describes (pre @ [r]) byPath'"
    "\<And>e. res = Some e \<Longrightarrow> e_routeIndex e = Some i"
proof -
  obtain res1 bp1 where m: "validateAdvancedCustomRouteModels i (route_path r) (route_models r) byPath = (res1, bp1)"
    by fastforce
  note vm = validate_models [OF assms(3) m]
  obtain ares where a: "validateRouteAuth (auth r) = Some ares" "ares = None \<longleftrightarrow> auth_ok (auth r)"
    using validateRouteAuth_typed [OF assms(1)] by blast
  have p: "json_trim (incoming_path r) = Some (route_path r)"
    using assms(1) by (auto simp: typed_route_def route_path_def)
  have c: "json_or (Some (converter r)) d = converter r" for d using assms(2) by (simp add: normal_route_def)
  have slash: "startsWith (route_path r) (js ''/'') \<Longrightarrow> route_path r \<noteq> []" by (auto simp: startsWith_def)
  show ?thesis
  proof (cases "startsWith (route_path r) (js ''/'') \<and> \<not> str_includes (route_path r) (js ''?'')")
    case False
    then have "\<exists>msg. validate_route URL i r byPath = Some (Some (route_error i msg), byPath)"
      using p by (auto simp: validate_route_def normal_models [OF assms(2)] Let_def)
    then obtain msg where "validate_route URL i r byPath = Some (Some (route_error i msg), byPath)" by blast
    then show ?thesis using False by (intro that) (auto simp: route_error_def fits_def route_ok_def)
  next
    case True
    show ?thesis
    proof (cases res1)
      case (Some e)
      then have "\<not> fits URL pre r" using vm by (auto simp: fits_def route_ok_def)
      then show ?thesis using that [of "Some e" bp1] True slash p m Some vm
        by (simp add: validate_route_def normal_models [OF assms(2)])
    next
      case None
      have f: "fits URL pre r \<longleftrightarrow> trim (upstream_path r) \<noteq> [] \<and> isFullHttpURLOrAbsolutePath URL (trim (upstream_path r))
          \<and> isAdvancedCustomConverter (converter r) \<and> isConverterPathAllowed (route_path r) (converter r)
          \<and> auth_ok (auth r)"
        using None True vm by (auto simp: fits_def route_ok_def)
      define res where "res = (if trim (upstream_path r) = [] then Some (route_error i ''Upstream path is required'')
         else if \<not> isFullHttpURLOrAbsolutePath URL (trim (upstream_path r))
         then Some (route_error i ''Upstream path must be a full URL or a path starting with /'')
         else if \<not> isAdvancedCustomConverter (converter r) then Some (route_error i ''Converter is not registered'')
         else if \<not> isConverterPathAllowed (route_path r) (converter r)
         then Some (route_error i ''Converter does not match incoming path'')
         else map_option (\<lambda>m. \<lparr>e_message = m, e_routeIndex = Some i\<rparr>) ares)"
      have "validate_route URL i r byPath = Some (res, bp1)"
        using True slash p m None a(1) by (simp add: validate_route_def normal_models [OF assms(2)] c res_def)
      moreover have "res = None \<longleftrightarrow> fits URL pre r" using f a(2) by (simp add: res_def)
      moreover have "e_routeIndex e = Some i" if "res = Some e" for e
        using that by (auto simp: res_def route_error_def split: if_splits)
      moreover have "describes (pre @ [r]) bp1" using vm None by simp
      ultimately show ?thesis using that [of res bp1] by blast
    qed
  qed
qed

lemma validate_routes_spec:
  assumes "\<forall>r\<in>set rs. typed_route r \<and> normal_route r" "describes pre byPath" "well_routed URL pre"
  shows "\<exists>res. validate_routes URL (length pre) rs byPath = Some res \<and> (res = None \<longleftrightarrow> well_routed URL (pre @ rs))
    \<and> (\<forall>e. res = Some e \<longrightarrow> (\<exists>k<length rs. e_routeIndex e = Some (length pre + k)
        \<and> well_routed URL (pre @ take k rs) \<and> \<not> well_routed URL (pre @ take (Suc k) rs)))"
  using assms
proof (induction rs arbitrary: pre byPath)
  case (Cons r rs)
  have "typed_route r" "normal_route r" using Cons.prems(1) by simp_all
  then obtain res bp' where v: "validate_route URL (length pre) r byPath = Some (res, bp')"
    "res = None \<longleftrightarrow> fits URL pre r" "res = None \<Longrightarrow> describes (pre @ [r]) bp'"
    "\<And>e. res = Some e \<Longrightarrow> e_routeIndex e = Some (length pre)"
    using validate_route_spec [OF _ _ Cons.prems(2)] by blast
  show ?case
  proof (cases res)
    case (Some e)
    then have "\<not> well_routed URL (pre @ [r])" using v(2) by simp
    moreover from this have "\<not> well_routed URL (pre @ r # rs)" by (auto simp: well_routed_def sorted_wrt_append)
    ultimately show ?thesis using Cons.prems(3) v(1,4) Some by fastforce
  next
    case None
    then have w: "well_routed URL (pre @ [r])" using v(2) Cons.prems(3) by simp
    obtain res2 where r2: "validate_routes URL (length (pre @ [r])) rs bp' = Some res2"
      "res2 = None \<longleftrightarrow> well_routed URL ((pre @ [r]) @ rs)"
      "\<And>e. res2 = Some e \<Longrightarrow> \<exists>k<length rs. e_routeIndex e = Some (length (pre @ [r]) + k)
          \<and> well_routed URL ((pre @ [r]) @ take k rs) \<and> \<not> well_routed URL ((pre @ [r]) @ take (Suc k) rs)"
      using Cons.IH [OF _ v(3) [OF None] w] Cons.prems(1) by auto
    have "validate_routes URL (length pre) (r # rs) byPath = Some res2" using v(1) r2(1) None by simp
    moreover have "\<exists>k<length (r # rs). e_routeIndex e = Some (length pre + k)
        \<and> well_routed URL (pre @ take k (r # rs)) \<and> \<not> well_routed URL (pre @ take (Suc k) (r # rs))"
      if err: "res2 = Some e" for e
    proof -
      obtain k where "k < length rs" "e_routeIndex e = Some (length (pre @ [r]) + k)"
          "well_routed URL ((pre @ [r]) @ take k rs)" "\<not> well_routed URL ((pre @ [r]) @ take (Suc k) rs)"
        using r2(3) [OF err] by blast
      then show ?thesis by (intro exI [of _ "Suc k"]) simp
    qed
    ultimately show ?thesis using r2(2) by simp
  qed
qed simp

text \<open>C2. Validation is exact. For a configuration whose routes have the declared types it returns
  without an exception; it accepts exactly the well routed configurations, in which every route is in
  order by itself, two routes of one path share no model rule and the fallback of a path is its last
  route; and the index it reports is that of the first route that breaks this.\<close>

theorem validation_exact:
  assumes "normalizeAdvancedCustomConfig v = Some c" "advanced_routes c \<noteq> []"
    and "\<forall>r\<in>set (advanced_routes c). typed_route r"
  shows "\<exists>res. validateAdvancedCustomConfig URL (Some v) = Some res
    \<and> (res = None \<longleftrightarrow> well_routed URL (advanced_routes c))
    \<and> (\<forall>e. res = Some e \<longrightarrow> (\<exists>k<length (advanced_routes c). e_routeIndex e = Some k
        \<and> well_routed URL (take k (advanced_routes c)) \<and> \<not> well_routed URL (take (Suc k) (advanced_routes c))))"
  using validate_routes_spec [of "advanced_routes c" "[]" "[]" URL] normalize_config_normal [OF assms(1)] assms
  by (simp add: validateAdvancedCustomConfig_def)

definition no_url :: url_api where
  "no_url s = None"

definition clashing_config :: json where
  "clashing_config = JObj [(js ''advanced_routes'', JArr
     [JObj [(js ''incoming_path'', text_value ''/a''), (js ''upstream_path'', text_value ''/b'')],
      JObj [(js ''incoming_path'', text_value ''/a''), (js ''upstream_path'', text_value ''/c'')]])]"

theorem validation_exact_witness:
  "\<not> well_routed no_url (advanced_routes (the (normalizeAdvancedCustomConfig clashing_config)))"
proof -
  let ?c = "the (normalizeAdvancedCustomConfig clashing_config)"
  have "normalizeAdvancedCustomConfig clashing_config = Some ?c" by code_simp
  moreover have "advanced_routes ?c \<noteq> []" by code_simp
  moreover have "\<forall>r\<in>set (advanced_routes ?c). typed_route r"
    by (simp add: clashing_config_def normalizeAdvancedCustomConfig_def normalizeAdvancedCustomRoute_def
        getAdvancedCustomRouteUpstreamPath_def typed_route_def)
  moreover have "validateAdvancedCustomConfig no_url (Some clashing_config) \<noteq> Some None" by code_simp
  ultimately show ?thesis using validation_exact [of clashing_config ?c no_url] by auto
qed

section \<open>Unchecked values\<close>

lemma untyped_path: "json_truthy j \<Longrightarrow> (\<And>s. j \<noteq> JStr s) \<Longrightarrow> json_trim j = None"
  by (cases j) auto

text \<open>C35. A path that is not a string passes the reader but not the rest: a document whose first route
  has a number, an object or a list as its path is read as a configuration, and validating it or
  summarising its text raises an exception instead of reporting an error.\<close>

theorem untyped_path_throws:
  assumes "JSON_parse text = Some doc" "trim text \<noteq> []" "json_is_plain_object doc"
    and "normalizeAdvancedCustomConfig doc = Some c" "advanced_routes c = r # rs"
    and "json_truthy (incoming_path r)" "\<And>s. incoming_path r \<noteq> JStr s"
  shows "parseAdvancedCustomConfig (Some text) = Some c \<and> validateAdvancedCustomConfig URL (Some (config_value c)) = None
    \<and> getAdvancedCustomStats URL (Some text) = None"
proof -
  have t: "json_trim (incoming_path r) = None" using assms(6,7) by (rule untyped_path)
  have p: "parseAdvancedCustomConfig (Some text) = Some c" using assms(1-4) by (simp add: parseAdvancedCustomConfig_def)
  have n: "normalizeAdvancedCustomConfig (config_value c) = Some c" using assms(4) by (rule normalize_idem)
  show ?thesis using t p n assms(5)
    by (simp add: validateAdvancedCustomConfig_def validate_route_def getAdvancedCustomStats_def
        getAdvancedCustomRouteSummaryLabel_def)
qed

definition numeric_path_text :: jstr where
  "numeric_path_text = js ''{\"advanced_routes\":[{\"incoming_path\":7}]}''"

theorem untyped_path_throws_witness: "getAdvancedCustomStats no_url (Some numeric_path_text) = None"
proof -
  define doc where "doc = JObj [(js ''advanced_routes'', JArr [JObj [(js ''incoming_path'', JNum 7)]])]"
  define r where "r = \<lparr>incoming_path = JNum 7, upstream_path = [], converter = text_value ''none'', models = None, auth = None\<rparr>"
  have "JSON_parse numeric_path_text = Some doc" unfolding doc_def by code_simp
  moreover have "trim numeric_path_text \<noteq> []" by code_simp
  moreover have "normalizeAdvancedCustomConfig doc = Some \<lparr>advanced_routes = [r]\<rparr>" unfolding doc_def r_def by code_simp
  ultimately show ?thesis
    using untyped_path_throws [of numeric_path_text doc "\<lparr>advanced_routes = [r]\<rparr>" r "[]" no_url]
    by (simp add: doc_def r_def)
qed

section \<open>Defaults\<close>

definition proposed_route :: "json \<Rightarrow> jstr \<Rightarrow> jstr \<times> route_auth \<Rightarrow> advanced_route" where
  "proposed_route conv path defaults =
     \<lparr>incoming_path = JStr path, upstream_path = fst defaults, converter = conv, models = None, auth = Some (snd defaults)\<rparr>"

definition route_for :: "json \<Rightarrow> jstr \<Rightarrow> advanced_route" where
  "route_for conv path = proposed_route conv path (getAdvancedCustomConverterDefaults conv path)"

definition default_route :: "json \<Rightarrow> advanced_route" where
  "default_route conv = route_for conv (getDefaultAdvancedCustomIncomingPath conv)"

definition default_proposals :: "advanced_route list" where
  "default_proposals =
    [proposed_route (text_value ''none'') (js ''/v1/chat/completions'')
       (js ''/v1/chat/completions'', bearerHeaderAuth),
     proposed_route (text_value ''anthropic_messages_to_openai_chat_completions'') (js ''/v1/messages'')
       (js ''/v1/chat/completions'', bearerHeaderAuth),
     proposed_route (text_value ''openai_chat_completions_to_anthropic_messages'') (js ''/v1/chat/completions'')
       (js ''/v1/messages'', apiKeyHeaderAuth),
     proposed_route (text_value ''openai_chat_completions_to_openai_responses'') (js ''/v1/chat/completions'')
       (js ''/v1/responses'', bearerHeaderAuth),
     proposed_route (text_value ''openai_responses_to_openai_chat_completions'') (js ''/v1/responses'')
       (js ''/v1/chat/completions'', bearerHeaderAuth),
     proposed_route (text_value ''openai_responses_to_gemini_generate_content'') (js ''/v1/responses'')
       (js ''/v1beta/models/{model}:generateContent'', geminiQueryAuth),
     proposed_route (text_value ''gemini_generate_content_to_openai_chat_completions'') (js ''/v1beta/models/{model}:generateContent'')
       (js ''/v1/chat/completions'', bearerHeaderAuth),
     proposed_route (text_value ''openai_chat_completions_to_gemini_generate_content'') (js ''/v1/chat/completions'')
       (js ''/v1beta/models/{model}:generateContent'', geminiQueryAuth)]"

lemma default_routes:
  "map (\<lambda>option. default_route (JStr (co_value option))) ADVANCED_CUSTOM_CONVERTER_OPTIONS = default_proposals"
  by code_simp

lemma default_proposals_valid:
  "list_all (\<lambda>r. validateAdvancedCustomConfig URL (Some (config_value \<lparr>advanced_routes = [r]\<rparr>)) = Some None)
    default_proposals"
  by code_simp

lemma templates_valid:
  "list_all (\<lambda>t. validateAdvancedCustomConfig URL (Some (config_value (getAdvancedCustomTemplateConfig (to_value t)))) = Some None)
     ADVANCED_CUSTOM_TEMPLATE_OPTIONS"
  by code_simp

lemma initial_config_valid: "validateAdvancedCustomConfig URL (Some (config_value createAdvancedCustomConfig)) = Some None"
  by code_simp


section \<open>Model rules as text\<close>

lemma trim_space [simp]: "trim (32 # s) = trim s"
  by (simp add: trim_def is_ws_def)

lemma split_models:
  "ms \<noteq> [] \<Longrightarrow> \<forall>m\<in>set ms. 44 \<notin> set m \<Longrightarrow> map trim (split_on 44 (join [44, 32] ms)) = map trim ms"
proof (induction "[44, 32] :: jstr" ms rule: join.induct)
  case (3 p q ps)
  have "split_on 44 (p @ 44 # 32 # join [44, 32] (q # ps)) = p # split_on 44 (32 # join [44, 32] (q # ps))"
    using 3 by (intro split_on_append_sep) simp
  moreover have "map trim (split_on 44 (32 # s)) = map trim (split_on 44 s)" for s
    by (cases "split_on 44 s") simp_all
  ultimately show ?case using 3 by simp
qed (simp_all add: split_on_no_sep)

lemma models_text_roundtrip:
  assumes "distinct ms" "\<forall>m\<in>set ms. 44 \<notin> set m \<and> m \<noteq> [] \<and> trim m = m"
  shows "parseAdvancedCustomRouteModels (join [44, 32] ms) = ms"
proof (cases "ms = []")
  case False
  have "map trim ms = ms" using assms(2) by (intro map_idI) simp
  then show ?thesis using split_models [OF False] assms
    by (simp add: parseAdvancedCustomRouteModels_def uniq_distinct filter_id_conv)
qed (simp add: parseAdvancedCustomRouteModels_def)

end
