(* ===== verification/RouteEditor.thy ===== *)
theory RouteEditor
  imports RouteConfig "HOL-Library.Multiset"
begin

text \<open>
  The editor of the advanced custom routes:
  \<open>features/channels/components/dialogs/advanced-custom-editor-dialog.tsx\<close>.

  The state of the dialog is the record \<open>editor\<close>: its hooks, the counter ref of the row keys and the texts it
  has handed to \<open>onSave\<close>. Every handler of the dialog, of a group and of a row is a definition; a handler
  returns \<open>None\<close> where it throws, a row handler also where it leaves its row alone. The routes a handler sees are those of the last render, the normal form
  of the configuration. \<open>ed_step\<close> runs the handlers in any order, each on a row that exists.

  The lemmas show that the repair of the fallback order works and when its result is valid, that row keys
  stay distinct and in step with the routes, that only valid configurations are saved, and that the
  model field of a row swallows a typed comma.
\<close>

section \<open>State\<close>

datatype edit_mode = VisualMode | JsonMode

record editor =
  ed_config :: advanced_custom_config
  routeKeys :: "json list"
  routeKeyCounter :: nat
  editMode :: edit_mode
  jsonText :: jstr
  jsonError :: jstr
  templateKey :: jstr
  savedTexts :: "jstr list"

record editor_env =
  URL_api :: url_api
  translation :: "jstr \<Rightarrow> jstr"

text \<open>Normalising or printing a record cannot throw (\<open>normalize_value\<close> below), so these are total.\<close>

definition normalizedConfig :: "advanced_custom_config \<Rightarrow> advanced_custom_config" where
  "normalizedConfig c = nullish_or (normalizeAdvancedCustomConfig (config_value c)) c"

definition printed :: "advanced_custom_config \<Rightarrow> jstr" where
  "printed c = opt_str (stringifyAdvancedCustomConfig (config_value c))"

definition ed_routes :: "editor \<Rightarrow> advanced_route list" where
  "ed_routes ed = advanced_routes (normalizedConfig (ed_config ed))"

definition validationError :: "editor_env \<Rightarrow> editor \<Rightarrow> validation_error option option" where
  "validationError env ed = validateAdvancedCustomConfig (URL_api env) (Some (config_value (normalizedConfig (ed_config ed))))"

definition getOptionLabel :: "(jstr \<times> jstr) list \<Rightarrow> jstr \<Rightarrow> jstr" where
  "getOptionLabel options v = (case find (\<lambda>option. fst option = v) options of None \<Rightarrow> v | Some option \<Rightarrow> or_str (snd option) v)"

definition getRouteIncomingPath :: "advanced_route \<Rightarrow> jstr option" where
  "getRouteIncomingPath route = json_trim (json_or (Some (incoming_path route)) (JStr []))"

definition isCatchAllRoute :: "advanced_route \<Rightarrow> bool" where
  "isCatchAllRoute route = (case models route of None \<Rightarrow> True | Some ms \<Rightarrow> length ms = 0)"

record route_row =
  row_route :: advanced_route
  row_key :: json
  row_index :: nat

record route_group =
  group_path :: jstr
  group_rows :: "route_row list"

definition at_index :: "'a list \<Rightarrow> int \<Rightarrow> 'a option" where
  "at_index xs i =
     (if 0 \<le> i then (if nat i < length xs then Some (xs ! nat i) else None)
      else if nat (- i) \<le> length xs then Some (xs ! (length xs - nat (- i))) else None)"

definition row_key_of :: "json list \<Rightarrow> nat \<Rightarrow> advanced_route \<Rightarrow> json" where
  "row_key_of keys index route =
     json_or (at_index keys (int index))
       (json_or (Some (incoming_path route))
         (json_or (Some (JStr (upstream_path route)))
           (json_or (Some (converter route)) (text_value ''advanced-custom-route''))))"

definition routeRows :: "editor \<Rightarrow> route_row list" where
  "routeRows ed =
     map (\<lambda>(index, route). \<lparr>row_route = route, row_key = row_key_of (routeKeys ed) index route, row_index = index\<rparr>)
       (enumerate 0 (ed_routes ed))"

text \<open>The groups in the order of their first route; \<open>groups\<close> and \<open>groupByPath\<close> hold the same objects, so the
  list alone carries both.\<close>

fun add_to_group :: "jstr \<Rightarrow> route_row \<Rightarrow> route_group list \<Rightarrow> route_group list" where
  "add_to_group path row [] = [\<lparr>group_path = path, group_rows = [row]\<rparr>]"
| "add_to_group path row (g # groups) =
     (if group_path g = path then g\<lparr>group_rows := group_rows g @ [row]\<rparr> # groups
      else g # add_to_group path row groups)"

fun build_groups :: "route_row list \<Rightarrow> route_group list \<Rightarrow> route_group list option" where
  "build_groups [] groups = Some groups"
| "build_groups (row # rows) groups =
     (case getRouteIncomingPath (row_route row) of
        None \<Rightarrow> None
      | Some path \<Rightarrow> build_groups rows (add_to_group path row groups))"

definition buildRouteGroups :: "route_row list \<Rightarrow> route_group list option" where
  "buildRouteGroups rows = build_groups rows []"

section \<open>Opening\<close>

definition initial_key :: "nat \<Rightarrow> json" where
  "initial_key index = JStr (js ''advanced-custom-route-initial-'' @ dec_digits index)"

definition open_editor :: "jstr \<Rightarrow> editor" where
  "open_editor v =
     (let initialConfig = nullish_or (parseAdvancedCustomConfig (Some v)) createAdvancedCustomConfig in
      \<lparr>ed_config = initialConfig,
       routeKeys = map initial_key [0..<length (advanced_routes (normalizedConfig initialConfig))],
       routeKeyCounter = 0, editMode = VisualMode, jsonText = printed initialConfig, jsonError = [],
       templateKey = to_value (hd ADVANCED_CUSTOM_TEMPLATE_OPTIONS), savedTexts = []\<rparr>)"

section \<open>Editing routes\<close>

definition createRouteKey :: "editor \<Rightarrow> json \<times> editor" where
  "createRouteKey ed =
     (let n = routeKeyCounter ed + 1 in
      (JStr (js ''advanced-custom-route-'' @ dec_digits n), ed\<lparr>routeKeyCounter := n\<rparr>))"

fun createRouteKeys :: "nat \<Rightarrow> editor \<Rightarrow> json list \<times> editor" where
  "createRouteKeys 0 ed = ([], ed)"
| "createRouteKeys (Suc n) ed =
     (case createRouteKey ed of (key, ed) \<Rightarrow> case createRouteKeys n ed of (keys, ed) \<Rightarrow> (key # keys, ed))"

datatype route_patch =
    PatchModels "jstr list"
  | PatchUpstream jstr
  | PatchConverter json json jstr "route_auth option"
  | PatchAuth "route_auth option"

fun apply_patch :: "route_patch \<Rightarrow> advanced_route \<Rightarrow> advanced_route" where
  "apply_patch (PatchModels ms) r = r\<lparr>models := Some ms\<rparr>"
| "apply_patch (PatchUpstream path) r = r\<lparr>upstream_path := path\<rparr>"
| "apply_patch (PatchConverter conv path upstream a) r =
     r\<lparr>converter := conv, incoming_path := path, upstream_path := upstream, auth := a\<rparr>"
| "apply_patch (PatchAuth a) r = r\<lparr>auth := a\<rparr>"

text \<open>The index is that of a row on the screen.\<close>

definition updateRoute :: "editor \<Rightarrow> nat \<Rightarrow> route_patch \<Rightarrow> editor" where
  "updateRoute ed index patch =
     (let next = ed_routes ed in
      ed\<lparr>ed_config := \<lparr>advanced_routes = next[index := apply_patch patch (next ! index)]\<rparr>\<rparr>)"

definition replaceRoutes :: "editor \<Rightarrow> advanced_route list \<Rightarrow> json list \<Rightarrow> editor" where
  "replaceRoutes ed nextRoutes nextRouteKeys =
     ed\<lparr>ed_config := \<lparr>advanced_routes = nextRoutes\<rparr>, routeKeys := nextRouteKeys\<rparr>"

definition append_route :: "editor \<Rightarrow> advanced_route \<Rightarrow> editor" where
  "append_route ed route =
     (case createRouteKey ed of (key, ed') \<Rightarrow>
        ed'\<lparr>ed_config := \<lparr>advanced_routes = ed_routes ed @ [route]\<rparr>, routeKeys := routeKeys ed @ [key]\<rparr>)"

definition addRoute :: "editor \<Rightarrow> editor" where
  "addRoute ed = append_route ed createAdvancedCustomRoute"

definition addRouteForIncomingPath :: "editor \<Rightarrow> jstr \<Rightarrow> editor" where
  "addRouteForIncomingPath ed incomingPath =
     (let resolvedIncomingPath = or_str incomingPath (js ''/v1/chat/completions'') in
      append_route ed (createAdvancedCustomRoute
        \<lparr>incoming_path := JStr resolvedIncomingPath, upstream_path := resolvedIncomingPath\<rparr>))"

definition remove_at :: "nat \<Rightarrow> 'a list \<Rightarrow> 'a list" where
  "remove_at index xs = take index xs @ drop (Suc index) xs"

definition removeRoute :: "editor \<Rightarrow> nat \<Rightarrow> editor" where
  "removeRoute ed index =
     ed\<lparr>ed_config := \<lparr>advanced_routes = remove_at index (ed_routes ed)\<rparr>,
        routeKeys := remove_at index (routeKeys ed)\<rparr>"

definition updateGroupIncomingPath :: "editor \<Rightarrow> route_group \<Rightarrow> jstr option \<Rightarrow> editor" where
  "updateGroupIncomingPath ed routeGroup nextIncomingPath =
     (let resolvedIncomingPath = or_str (opt_str nextIncomingPath) (js ''/v1/chat/completions'');
          groupRouteIndexes = map row_index (group_rows routeGroup);
          nextRoutes = map (\<lambda>(routeIndex, route).
            if routeIndex \<notin> set groupRouteIndexes then route
            else (let conv = json_or (Some (converter route)) (text_value ''none'') in
                  route\<lparr>incoming_path := JStr resolvedIncomingPath,
                    converter := (if isAdvancedCustomIncomingPathAllowed resolvedIncomingPath conv then conv
                                  else text_value ''none'')\<rparr>)) (enumerate 0 (ed_routes ed)) in
      replaceRoutes ed nextRoutes (map row_key (routeRows ed)))"

section \<open>Ordering routes\<close>

definition swap_at :: "nat \<Rightarrow> nat \<Rightarrow> 'a list \<Rightarrow> 'a list" where
  "swap_at i j xs = xs[i := xs ! j, j := xs ! i]"

definition swapRoutes :: "editor \<Rightarrow> nat \<Rightarrow> nat \<Rightarrow> editor" where
  "swapRoutes ed fromIndex toIndex =
     (if fromIndex = toIndex then ed
      else replaceRoutes ed (swap_at fromIndex toIndex (ed_routes ed))
        (swap_at fromIndex toIndex (map row_key (routeRows ed))))"

text \<open>The indexes of the routes with the path of route \<open>index\<close>.\<close>

definition samePathIndexes :: "advanced_route list \<Rightarrow> nat \<Rightarrow> nat list option" where
  "samePathIndexes routes index = do {
     incomingPath \<leftarrow> getRouteIncomingPath (routes ! index);
     paths \<leftarrow> map_throwing getRouteIncomingPath routes;
     Some (map fst (filter (\<lambda>(_, path). path = incomingPath) (enumerate 0 paths))) }"

definition moveRouteWithinGroup :: "editor \<Rightarrow> nat \<Rightarrow> int \<Rightarrow> editor option" where
  "moveRouteWithinGroup ed index direction = do {
     same \<leftarrow> samePathIndexes (ed_routes ed) index;
     let position = (case findIndex (\<lambda>i. i = index) same of None \<Rightarrow> - 1 | Some k \<Rightarrow> int k);
     Some (case at_index same (position + direction) of
         None \<Rightarrow> ed
       | Some nextIndex \<Rightarrow> swapRoutes ed index nextIndex) }"

definition move_to :: "nat \<Rightarrow> nat \<Rightarrow> 'a list \<Rightarrow> 'a list" where
  "move_to i j xs = (let rest = remove_at i xs in take j rest @ [xs ! i] @ drop j rest)"

definition moveRouteToGroupEnd :: "editor \<Rightarrow> nat \<Rightarrow> editor option" where
  "moveRouteToGroupEnd ed index = do {
     incomingPath \<leftarrow> getRouteIncomingPath (ed_routes ed ! index);
     paths \<leftarrow> map_throwing getRouteIncomingPath (ed_routes ed);
     Some (case findLastIndex (\<lambda>path. path = incomingPath) paths of
         None \<Rightarrow> ed
       | Some lastSamePathIndex \<Rightarrow>
           if index = lastSamePathIndex then ed
           else replaceRoutes ed (move_to index lastSamePathIndex (ed_routes ed))
             (move_to index lastSamePathIndex (map row_key (routeRows ed)))) }"

fun rows_by_path :: "route_row list \<Rightarrow> (jstr, route_row list) jmap \<Rightarrow> (jstr, route_row list) jmap option" where
  "rows_by_path [] byPath = Some byPath"
| "rows_by_path (row # rows) byPath =
     (case getRouteIncomingPath (row_route row) of
        None \<Rightarrow> None
      | Some path \<Rightarrow> rows_by_path rows (map_set path (nullish_or (map_get byPath path) [] @ [row]) byPath))"

definition fallback_last :: "route_row list \<Rightarrow> route_row list" where
  "fallback_last rows =
     filter (\<lambda>row. \<not> isCatchAllRoute (row_route row)) rows @ filter (\<lambda>row. isCatchAllRoute (row_route row)) rows"

fun shift_rows :: "route_row list \<Rightarrow> (jstr, route_row list) jmap \<Rightarrow> route_row list option" where
  "shift_rows [] byPath = Some []"
| "shift_rows (row # rows) byPath =
     (case getRouteIncomingPath (row_route row) of
        None \<Rightarrow> None
      | Some path \<Rightarrow>
        (case map_get byPath path of
           Some (first # others) \<Rightarrow> map_option ((#) first) (shift_rows rows (map_set path others byPath))
         | _ \<Rightarrow> map_option ((#) row) (shift_rows rows byPath)))"

definition ordered_rows :: "route_row list \<Rightarrow> route_row list option" where
  "ordered_rows rows = do {
     byPath \<leftarrow> rows_by_path rows [];
     shift_rows rows (map (\<lambda>(path, rows). (path, fallback_last rows)) byPath) }"

definition fixCatchAllOrder :: "editor \<Rightarrow> editor option" where
  "fixCatchAllOrder ed = do {
     nextRows \<leftarrow> ordered_rows (routeRows ed);
     Some (replaceRoutes ed (map row_route nextRows) (map row_key nextRows)) }"

section \<open>The row editor\<close>

definition route_converter :: "advanced_route \<Rightarrow> json" where
  "route_converter route = json_or (Some (converter route)) (text_value ''none'')"

text \<open>A row is drawn only when its path is a string: grouping the rows for the screen has read it before.\<close>

fun path_text :: "json \<Rightarrow> jstr option" where
  "path_text (JStr s) = Some s"
| "path_text _ = None"

definition modelsInputValue :: "advanced_route \<Rightarrow> jstr" where
  "modelsInputValue route = (case models route of None \<Rightarrow> [] | Some ms \<Rightarrow> join [44, 32] ms)"

definition setConverter :: "advanced_route \<Rightarrow> json \<Rightarrow> route_patch option" where
  "setConverter route nextConverter = do {
     incomingPath \<leftarrow> path_text (json_or (Some (incoming_path route))
       (JStr (getDefaultAdvancedCustomIncomingPath (route_converter route))));
     let nextIncomingPath = (if \<not> isAdvancedCustomIncomingPathAllowed incomingPath nextConverter
            then getDefaultAdvancedCustomIncomingPath nextConverter else incomingPath);
     let defaults = getAdvancedCustomConverterDefaults nextConverter nextIncomingPath;
     Some (PatchConverter nextConverter (JStr nextIncomingPath) (fst defaults) (Some (snd defaults))) }"

definition setAuthMode :: "advanced_route \<Rightarrow> auth_mode \<Rightarrow> route_patch" where
  "setAuthMode route mode = PatchAuth (buildAdvancedCustomAuth mode (auth route))"

definition setModelsInput :: "jstr \<Rightarrow> route_patch" where
  "setModelsInput v = PatchModels (if v = [] then [] else split_on 44 v)"

definition normalizeModelsInput :: "jstr \<Rightarrow> route_patch" where
  "normalizeModelsInput v = PatchModels (parseAdvancedCustomRouteModels v)"

datatype auth_input = AuthName | AuthValue

definition updateAuth :: "advanced_route \<Rightarrow> auth_input \<Rightarrow> jstr \<Rightarrow> route_patch option" where
  "updateAuth route field v =
     (case auth route of
        None \<Rightarrow> None
      | Some currentAuth \<Rightarrow>
        if auth_type currentAuth = Some (text_value ''none'') then None
        else
          (let base = \<lparr>auth_type = auth_type currentAuth, auth_name = Some (json_or (auth_name currentAuth) (JStr [])),
                       auth_value = Some (json_or (auth_value currentAuth) (JStr []))\<rparr> in
           Some (PatchAuth (Some (case field of
               AuthName \<Rightarrow> base\<lparr>auth_name := Some (JStr v)\<rparr>
             | AuthValue \<Rightarrow> base\<lparr>auth_value := Some (JStr v)\<rparr>)))))"

section \<open>Text mode, templates and saving\<close>

text \<open>The configuration, \<open>None\<close> for \<open>null\<close>, and the dialog with its message; outer \<open>None\<close> when validation throws.\<close>

definition parseJsonEditorConfig :: "editor_env \<Rightarrow> editor \<Rightarrow> (advanced_custom_config option \<times> editor) option" where
  "parseJsonEditorConfig env ed =
     (case parseAdvancedCustomConfig (Some (jsonText ed)) of
        None \<Rightarrow> Some (None, ed\<lparr>jsonError := translation env (js ''Invalid JSON'')\<rparr>)
      | Some parsed \<Rightarrow>
        (case validateAdvancedCustomConfig (URL_api env) (Some (config_value parsed)) of
           None \<Rightarrow> None
         | Some (Some error) \<Rightarrow> Some (None, ed\<lparr>jsonError := translation env (e_message error)\<rparr>)
         | Some None \<Rightarrow> Some (Some parsed, ed\<lparr>jsonError := []\<rparr>)))"

definition install_config :: "editor \<Rightarrow> advanced_custom_config \<Rightarrow> editor" where
  "install_config ed c =
     (case createRouteKeys (length (advanced_routes c)) (ed\<lparr>ed_config := c\<rparr>) of
        (keys, ed) \<Rightarrow> ed\<lparr>routeKeys := keys\<rparr>)"

definition switchToVisualMode :: "editor_env \<Rightarrow> editor \<Rightarrow> editor option" where
  "switchToVisualMode env ed = do {
     (parsed, ed) \<leftarrow> parseJsonEditorConfig env ed;
     Some (case parsed of
         None \<Rightarrow> ed
       | Some c \<Rightarrow> (install_config ed (normalizedConfig c))\<lparr>editMode := VisualMode\<rparr>) }"

definition switchToJsonMode :: "editor \<Rightarrow> editor" where
  "switchToJsonMode ed =
     ed\<lparr>jsonText := printed (normalizedConfig (ed_config ed)), jsonError := [], editMode := JsonMode\<rparr>"

definition handleJsonChange :: "editor \<Rightarrow> jstr \<Rightarrow> editor" where
  "handleJsonChange ed nextValue =
     (let ed = ed\<lparr>jsonText := nextValue\<rparr> in if jsonError ed \<noteq> [] then ed\<lparr>jsonError := []\<rparr> else ed)"

definition formatJson :: "editor_env \<Rightarrow> editor \<Rightarrow> editor option" where
  "formatJson env ed = do {
     (parsed, ed) \<leftarrow> parseJsonEditorConfig env ed;
     Some (case parsed of None \<Rightarrow> ed | Some c \<Rightarrow> ed\<lparr>jsonText := printed c\<rparr>) }"

datatype template_mode = TemplateFill | TemplateAppend

definition finish_template :: "editor \<Rightarrow> advanced_custom_config \<Rightarrow> editor" where
  "finish_template ed nextConfig =
     (let normalized = normalizedConfig nextConfig in
      (install_config ed normalized)\<lparr>jsonText := printed normalized, jsonError := []\<rparr>)"

definition applyTemplate :: "editor_env \<Rightarrow> editor \<Rightarrow> template_mode \<Rightarrow> editor option" where
  "applyTemplate env ed mode =
     (let templateConfig = getAdvancedCustomTemplateConfig (templateKey ed) in
      case mode of
        TemplateFill \<Rightarrow> Some (finish_template ed templateConfig)
      | TemplateAppend \<Rightarrow> do {
          (baseConfig, ed) \<leftarrow> (if editMode ed = JsonMode then parseJsonEditorConfig env ed
             else Some (Some (normalizedConfig (ed_config ed)), ed));
          Some (case baseConfig of
              None \<Rightarrow> ed
            | Some base \<Rightarrow> finish_template ed \<lparr>advanced_routes =
                advanced_routes (normalizedConfig base) @ advanced_routes (normalizedConfig templateConfig)\<rparr>) })"

definition saveConfig_dialog :: "editor_env \<Rightarrow> editor \<Rightarrow> editor option" where
  "saveConfig_dialog env ed =
     (if editMode ed = JsonMode
      then do {
        (parsed, ed) \<leftarrow> parseJsonEditorConfig env ed;
        Some (case parsed of None \<Rightarrow> ed | Some c \<Rightarrow> ed\<lparr>savedTexts := savedTexts ed @ [printed c]\<rparr>) }
      else do {
        error \<leftarrow> validationError env ed;
        Some (case error of
            Some _ \<Rightarrow> ed
          | None \<Rightarrow> ed\<lparr>savedTexts := savedTexts ed @ [printed (normalizedConfig (ed_config ed))]\<rparr>) })"

section \<open>Runs\<close>

datatype row_edit =
    EditModels jstr | BlurModels jstr | EditUpstream jstr | EditConverter json | EditAuthMode auth_mode
  | EditAuth auth_input jstr

fun row_patch :: "advanced_route \<Rightarrow> row_edit \<Rightarrow> route_patch option" where
  "row_patch route (EditModels v) = Some (setModelsInput v)"
| "row_patch route (BlurModels v) = Some (normalizeModelsInput v)"
| "row_patch route (EditUpstream v) = Some (PatchUpstream v)"
| "row_patch route (EditConverter conv) = setConverter route conv"
| "row_patch route (EditAuthMode mode) = Some (setAuthMode route mode)"
| "row_patch route (EditAuth field v) = updateAuth route field v"

datatype editor_event =
    EdRow nat row_edit | EdAdd | EdAddFor jstr | EdRemove nat | EdGroupPath route_group "jstr option"
  | EdMoveUp nat | EdMoveDown nat | EdMoveToEnd nat | EdFix
  | EdVisual | EdJson | EdText jstr | EdFormat | EdTemplateKey jstr | EdTemplate template_mode | EdSave

fun ed_handle :: "editor_env \<Rightarrow> editor \<Rightarrow> editor_event \<Rightarrow> editor option" where
  "ed_handle env ed (EdRow i edit) = map_option (updateRoute ed i) (row_patch (ed_routes ed ! i) edit)"
| "ed_handle env ed EdAdd = Some (addRoute ed)"
| "ed_handle env ed (EdAddFor path) = Some (addRouteForIncomingPath ed path)"
| "ed_handle env ed (EdRemove i) = Some (removeRoute ed i)"
| "ed_handle env ed (EdGroupPath routeGroup path) = Some (updateGroupIncomingPath ed routeGroup path)"
| "ed_handle env ed (EdMoveUp i) = moveRouteWithinGroup ed i (- 1)"
| "ed_handle env ed (EdMoveDown i) = moveRouteWithinGroup ed i 1"
| "ed_handle env ed (EdMoveToEnd i) = moveRouteToGroupEnd ed i"
| "ed_handle env ed EdFix = fixCatchAllOrder ed"
| "ed_handle env ed EdVisual = switchToVisualMode env ed"
| "ed_handle env ed EdJson = Some (switchToJsonMode ed)"
| "ed_handle env ed (EdText text) = Some (handleJsonChange ed text)"
| "ed_handle env ed EdFormat = formatJson env ed"
| "ed_handle env ed (EdTemplateKey key) = Some (ed\<lparr>templateKey := key\<rparr>)"
| "ed_handle env ed (EdTemplate mode) = applyTemplate env ed mode"
| "ed_handle env ed EdSave = saveConfig_dialog env ed"

fun ed_possible :: "editor \<Rightarrow> editor_event \<Rightarrow> bool" where
  "ed_possible ed (EdRow i _) = (i < length (ed_routes ed))"
| "ed_possible ed (EdRemove i) = (i < length (ed_routes ed))"
| "ed_possible ed (EdMoveUp i) = (i < length (ed_routes ed))"
| "ed_possible ed (EdMoveDown i) = (i < length (ed_routes ed))"
| "ed_possible ed (EdMoveToEnd i) = (i < length (ed_routes ed))"
| "ed_possible ed _ = True"

inductive ed_step :: "editor_env \<Rightarrow> editor \<Rightarrow> editor \<Rightarrow> bool" for env where
  event: "ed_possible ed e \<Longrightarrow> ed_handle env ed e = Some ed' \<Longrightarrow> ed_step env ed ed'"

section \<open>Rendering never fails on records\<close>

lemma normalize_route_value: "\<exists>r'. normalizeAdvancedCustomRoute (route_value r) = Some r'"
  by (cases "models r") (auto simp: normalizeAdvancedCustomRoute_def)

lemma normalize_value: "normalizeAdvancedCustomConfig (config_value c) = Some (normalizedConfig c)"
proof -
  have "\<exists>ys. map_throwing normalizeAdvancedCustomRoute (map route_value rs) = Some ys" for rs
  proof (induction rs)
    case (Cons r rs)
    then show ?case using normalize_route_value [of r] by auto
  qed simp
  then obtain ys where "map_throwing normalizeAdvancedCustomRoute (map route_value (advanced_routes c)) = Some ys" by blast
  then show ?thesis by (simp add: normalizedConfig_def normalizeAdvancedCustomConfig_def)
qed

lemma normalized_routes:
  "map_throwing normalizeAdvancedCustomRoute (map route_value (advanced_routes c)) = Some (advanced_routes (normalizedConfig c))"
  using normalize_value [of c] by (cases "normalizedConfig c") (auto simp: normalizeAdvancedCustomConfig_def bind_eq_Some_conv)

lemma normalized_normal: "r \<in> set (advanced_routes (normalizedConfig c)) \<Longrightarrow> normal_route r"
  by (rule normalize_config_normal [OF normalize_value])

lemma normalized_fix: "\<forall>r\<in>set (advanced_routes c). normal_route r \<Longrightarrow> normalizedConfig c = c"
  by (simp add: normalizedConfig_def normalize_config_fix)

lemma normalized_idem [simp]: "normalizedConfig (normalizedConfig c) = normalizedConfig c"
  by (simp add: normalized_fix normalized_normal)

lemma map_throwing_length: "map_throwing f xs = Some ys \<Longrightarrow> length ys = length xs"
  by (induction xs arbitrary: ys) (auto simp: bind_eq_Some_conv)

lemma normalized_length [simp]: "length (advanced_routes (normalizedConfig c)) = length (advanced_routes c)"
  using map_throwing_length [OF normalized_routes [of c]] by simp

lemma map_throwing_nth: "map_throwing f xs = Some ys \<Longrightarrow> i < length xs \<Longrightarrow> f (xs ! i) = Some (ys ! i)"
  by (induction xs arbitrary: ys i) (auto simp: bind_eq_Some_conv nth_Cons split: nat.splits)

lemma normalized_nth:
  "i < length (advanced_routes c) \<Longrightarrow>
     normalizeAdvancedCustomRoute (route_value (advanced_routes c ! i)) = Some (advanced_routes (normalizedConfig c) ! i)"
  using map_throwing_nth [OF normalized_routes [of c], of i] by simp

lemma printed_eq: "stringifyAdvancedCustomConfig (config_value c) = Some (printed c)"
  by (simp add: printed_def stringifyAdvancedCustomConfig_def normalize_value)

lemma ed_routes_normal: "r \<in> set (ed_routes ed) \<Longrightarrow> normal_route r"
  by (simp add: ed_routes_def normalized_normal)

lemma normalized_models:
  assumes "normalizeAdvancedCustomRoute v = Some r" "normalizeAdvancedCustomRouteModels (json_get (js ''models'') v) = Some ms"
  shows "models r = (if 0 < length ms then Some ms else None)"
  using assms by (auto simp: normalizeAdvancedCustomRoute_def bind_eq_Some_conv split: if_splits)

section \<open>A typed comma\<close>

text \<open>C37. The model field of a row cannot hold a trailing comma: typing a comma after the text on
  the screen leaves the text on the screen as it was, so that a second model cannot be typed after the first.\<close>

theorem typed_comma_vanishes:
  assumes "i < length (ed_routes ed)" "\<forall>m\<in>set (route_models (ed_routes ed ! i)). 44 \<notin> set m"
    and "shown = modelsInputValue (ed_routes ed ! i)"
    and "ed' = updateRoute ed i (setModelsInput (shown @ [44]))"
  shows "modelsInputValue (ed_routes ed' ! i) = shown"
proof -
  let ?r = "ed_routes ed ! i" and ?typed = "split_on 44 (shown @ [44])"
  have n: "normal_route ?r" using assms(1) by (intro ed_routes_normal [of _ ed]) simp
  have shown: "shown = join [44, 32] (route_models ?r)"
    using assms(3) by (simp add: modelsInputValue_def route_models_def split: option.split)
  have tidy: "\<forall>m\<in>set (route_models ?r). m \<noteq> [] \<and> trim m = m"
    using n by (auto simp: normal_route_def route_models_def split: option.splits)
  have "split_on 44 (s @ [44]) = split_on 44 s @ [[]]" for s :: jstr
    by (induction s) (auto split: list.splits)
  then have "map trim ?typed = map trim (split_on 44 shown) @ [[]]" by simp
  moreover have "filter (\<lambda>m. m \<noteq> []) (map trim (split_on 44 shown)) = route_models ?r"
  proof (cases "route_models ?r = []")
    case False
    have "map trim (route_models ?r) = route_models ?r" using tidy by (intro map_idI) simp
    then show ?thesis unfolding shown using split_models [OF False] assms(2) tidy by (simp add: filter_id_conv)
  qed (simp add: shown)
  ultimately have t: "filter (\<lambda>m. m \<noteq> []) (map trim ?typed) = route_models ?r" by simp
  have "advanced_routes (ed_config ed') ! i = apply_patch (setModelsInput (shown @ [44])) ?r"
      "i < length (advanced_routes (ed_config ed'))"
    using assms(1,4) by (simp_all add: updateRoute_def Let_def)
  then have "normalizeAdvancedCustomRoute (route_value (?r\<lparr>models := Some ?typed\<rparr>)) = Some (ed_routes ed' ! i)"
    using normalized_nth [of i "ed_config ed'"] by (simp add: ed_routes_def setModelsInput_def)
  then have "models (ed_routes ed' ! i) = (if 0 < length (route_models ?r) then Some (route_models ?r) else None)"
    by (rule normalized_models) (simp add: t)
  then show ?thesis by (simp add: shown modelsInputValue_def)
qed

definition one_model_editor :: editor where
  "one_model_editor = (open_editor [])\<lparr>ed_config := \<lparr>advanced_routes =
     [createAdvancedCustomRoute\<lparr>models := Some [js ''a'']\<rparr>]\<rparr>\<rparr>"

theorem typed_comma_vanishes_witness:
  "modelsInputValue (ed_routes (updateRoute one_model_editor 0 (setModelsInput (js ''a,''))) ! 0) = js ''a''"
proof -
  have f: "0 < length (ed_routes one_model_editor)" "js ''a'' = modelsInputValue (ed_routes one_model_editor ! 0)"
      "\<forall>m\<in>set (route_models (ed_routes one_model_editor ! 0)). 44 \<notin> set m" "js ''a,'' = js ''a'' @ [44]"
    by code_simp+
  show ?thesis unfolding f(4) by (rule typed_comma_vanishes [OF f(1,3,2) refl])
qed

section \<open>What is saved\<close>

definition saved_ok :: "editor_env \<Rightarrow> jstr \<Rightarrow> bool" where
  "saved_ok env text \<longleftrightarrow> (\<exists>c. normalizedConfig c = c \<and> text = printed c
     \<and> validateAdvancedCustomConfig (URL_api env) (Some (config_value c)) = Some None)"

definition saves_ok :: "editor_env \<Rightarrow> editor \<Rightarrow> bool" where
  "saves_ok env ed \<longleftrightarrow> (\<forall>text\<in>set (savedTexts ed). saved_ok env text)"

lemma parsed_normal: "parseAdvancedCustomConfig v = Some c \<Longrightarrow> normalizedConfig c = c"
  by (auto simp: parseAdvancedCustomConfig_def normalizedConfig_def dest: normalize_idem split: option.splits if_splits)

lemma saved_okI:
  "normalizedConfig c = c \<Longrightarrow> validateAdvancedCustomConfig (URL_api env) (Some (config_value c)) = Some None \<Longrightarrow>
     saved_ok env (printed c)"
  by (auto simp: saved_ok_def)

lemma parse_editor:
  assumes "parseJsonEditorConfig env ed = Some (res, ed')"
  shows "savedTexts ed' = savedTexts ed \<and> ed_config ed' = ed_config ed \<and> routeKeys ed' = routeKeys ed
    \<and> routeKeyCounter ed' = routeKeyCounter ed
    \<and> (\<forall>c. res = Some c \<longrightarrow> saved_ok env (printed c) \<and> normalizedConfig c = c)"
  using assms parsed_normal [of "Some (jsonText ed)"]
  by (auto simp: parseJsonEditorConfig_def intro: saved_okI split: option.splits)

lemma createRouteKeys_saved [simp]: "savedTexts (snd (createRouteKeys n ed)) = savedTexts ed"
proof (induction n arbitrary: ed)
  case (Suc n)
  then show ?case using Suc.IH [of "snd (createRouteKey ed)"]
    by (simp add: createRouteKey_def Let_def case_prod_unfold)
qed simp

lemma install_saved [simp]: "savedTexts (install_config ed c) = savedTexts ed"
  by (simp add: install_config_def case_prod_unfold)

lemma swap_saved [simp]: "savedTexts (swapRoutes ed i j) = savedTexts ed"
  by (simp add: swapRoutes_def replaceRoutes_def)

lemma append_saved [simp]: "savedTexts (append_route ed r) = savedTexts ed"
  by (simp add: append_route_def createRouteKey_def Let_def)

lemmas editor_ops = updateRoute_def addRoute_def addRouteForIncomingPath_def removeRoute_def updateGroupIncomingPath_def
  moveRouteWithinGroup_def moveRouteToGroupEnd_def fixCatchAllOrder_def switchToJsonMode_def handleJsonChange_def
  replaceRoutes_def

lemma handle_saves:
  assumes "saves_ok env ed" "ed_handle env ed e = Some ed'"
  shows "saves_ok env ed'"
proof (cases e)
  case EdSave
  show ?thesis
  proof (cases "editMode ed = JsonMode")
    case True
    then obtain res ed1 where p: "parseJsonEditorConfig env ed = Some (res, ed1)"
      "ed' = (case res of None \<Rightarrow> ed1 | Some c \<Rightarrow> ed1\<lparr>savedTexts := savedTexts ed1 @ [printed c]\<rparr>)"
      using assms(2) EdSave by (auto simp: saveConfig_dialog_def bind_eq_Some_conv)
    then show ?thesis using parse_editor [OF p(1)] assms(1) by (auto simp: saves_ok_def split: option.splits)
  next
    case False
    then show ?thesis using assms EdSave
      by (auto simp: saveConfig_dialog_def validationError_def saves_ok_def bind_eq_Some_conv intro: saved_okI [OF normalized_idem]
          split: option.splits)
  qed
next
  case (EdTemplate mode)
  then show ?thesis using assms
    by (auto simp: applyTemplate_def finish_template_def Let_def saves_ok_def bind_eq_Some_conv
        split: template_mode.splits if_splits option.splits dest!: parse_editor)
next
  case EdVisual
  then show ?thesis using assms
    by (auto simp: switchToVisualMode_def saves_ok_def bind_eq_Some_conv split: option.splits dest!: parse_editor)
next
  case EdFormat
  then show ?thesis using assms
    by (auto simp: formatJson_def saves_ok_def bind_eq_Some_conv split: option.splits dest!: parse_editor)
qed (use assms in \<open>auto simp: editor_ops saves_ok_def Let_def bind_eq_Some_conv split: option.splits if_splits\<close>)

interpretation saves_inv: kept_invariant "ed_step env" "saves_ok env" for env
  by unfold_locales (auto elim!: ed_step.cases intro: handle_saves)

text \<open>C7. Whatever is done in the dialog, only valid configurations are saved: every text handed
  over is the printed form of a configuration that passes validation, and reading the text back gives that
  configuration.\<close>

theorem only_valid_saved:
  assumes "reaches (ed_step env) (open_editor v) ed" "text \<in> set (savedTexts ed)"
  shows "\<exists>c. text = printed c \<and> validateAdvancedCustomConfig (URL_api env) (Some (config_value c)) = Some None
    \<and> (serialisable (config_value c) \<longrightarrow> parseAdvancedCustomConfig (Some text) = Some c)"
proof -
  have "saves_ok env (open_editor v)" by (simp add: saves_ok_def open_editor_def Let_def)
  then have "saves_ok env ed" by (rule saves_inv.run_keeps [OF assms(1)])
  then obtain c where c: "normalizedConfig c = c" "text = printed c"
      "validateAdvancedCustomConfig (URL_api env) (Some (config_value c)) = Some None"
    using assms(2) by (auto simp: saves_ok_def saved_ok_def)
  have two: "js ''  '' = [32, 32]" by code_simp
  have "parseAdvancedCustomConfig (Some text) = Some c" if "serialisable (config_value c)"
    using indented.decode_encode [OF that] normalize_value [of c] c(1) printed_not_blank [of "[32, 32]" c]
    by (simp add: c(2) printed_def stringifyAdvancedCustomConfig_def parseAdvancedCustomConfig_def two)
  then show ?thesis using c by blast
qed

definition demo_editor_env :: editor_env where
  "demo_editor_env = \<lparr>URL_api = no_url, translation = (\<lambda>s. s)\<rparr>"

theorem only_valid_saved_witness:
  "\<exists>(ed::editor) c text. savedTexts ed = [text] \<and> text = printed c
     \<and> validateAdvancedCustomConfig no_url (Some (config_value c)) = Some None"
proof -
  let ?ed = "open_editor []" let ?ed' = "?ed\<lparr>savedTexts := [printed (normalizedConfig (ed_config ?ed))]\<rparr>"
  have "saveConfig_dialog demo_editor_env ?ed = Some ?ed'"
    by (simp add: saveConfig_dialog_def validationError_def, code_simp)
  then have "reaches (ed_step demo_editor_env) ?ed ?ed'"
    by (intro reaches_step [OF reaches_refl] ed_step.event [where e = EdSave]) simp_all
  then obtain c where "printed (normalizedConfig (ed_config ?ed)) = printed c"
      "validateAdvancedCustomConfig no_url (Some (config_value c)) = Some None"
    using only_valid_saved [of demo_editor_env "[]" ?ed' "printed (normalizedConfig (ed_config ?ed))"]
    by (auto simp: demo_editor_env_def)
  then show ?thesis by (intro exI [of _ ?ed']) auto
qed

section \<open>Repairing the fallback order\<close>

lemma config_eta [simp]: "\<lparr>advanced_routes = advanced_routes c\<rparr> = c"
  by (cases c) simp

lemma route_path_shown: "opt_str (getRouteIncomingPath r) = route_path r"
  by (cases "incoming_path r") (simp_all add: getRouteIncomingPath_def route_path_def json_or_def)

lemma shown_path: "getRouteIncomingPath r = Some p \<Longrightarrow> route_path r = p"
  using route_path_shown [of r] by simp

lemma typed_path: "typed_route r \<Longrightarrow> getRouteIncomingPath r = Some (route_path r)"
  by (auto simp: typed_route_def getRouteIncomingPath_def route_path_def)

lemma catch_all_iff [simp]: "isCatchAllRoute r \<longleftrightarrow> route_models r = []"
  by (simp add: isCatchAllRoute_def route_models_def split: option.split)

abbreviation row_path :: "route_row \<Rightarrow> jstr" where
  "row_path row \<equiv> route_path (row_route row)"

abbreviation path_rows :: "jstr \<Rightarrow> route_row list \<Rightarrow> route_row list" where
  "path_rows p \<equiv> filter (\<lambda>row. row_path row = p)"

lemma rows_by_path_queue:
  "rows_by_path rows m = Some m' \<Longrightarrow>
     nullish_or (map_get m' p) [] = nullish_or (map_get m p) [] @ path_rows p rows"
  by (induction rows m rule: rows_by_path.induct) (auto simp: jm.get_put shown_path split: option.splits)

lemma rows_by_path_total:
  "\<forall>row\<in>set rows. getRouteIncomingPath (row_route row) \<noteq> None \<Longrightarrow> \<exists>m'. rows_by_path rows m = Some m'"
  by (induction rows m rule: rows_by_path.induct) (auto split: option.splits)

lemma rows_by_path_shown:
  "rows_by_path rows m = Some m' \<Longrightarrow> row \<in> set rows \<Longrightarrow> getRouteIncomingPath (row_route row) = Some (row_path row)"
  by (induction rows m rule: rows_by_path.induct) (auto simp: shown_path split: option.splits)

lemma map_get_map: "map_get (map (\<lambda>(k, v). (k, f v)) m) k = map_option f (map_get m k)"
  by (induction m) (auto simp: map_get_def)

lemma fallback_last_simps [simp]:
  "fallback_last [] = []" "length (fallback_last rows) = length rows" "set (fallback_last rows) = set rows"
  by (auto simp: fallback_last_def sum_length_filter_compl add.commute)

lemma shift_rows_queues:
  assumes "\<forall>row\<in>set rows. getRouteIncomingPath (row_route row) = Some (row_path row)"
    and "\<And>p. length (nullish_or (map_get m p) []) = length (path_rows p rows)"
    and "\<And>p row. row \<in> set (nullish_or (map_get m p) []) \<Longrightarrow> row_path row = p"
  shows "\<exists>out. shift_rows rows m = Some out \<and> map row_path out = map row_path rows
    \<and> (\<forall>p. path_rows p out = nullish_or (map_get m p) [])"
  using assms
proof (induction rows arbitrary: m)
  case (Cons row rows)
  let ?p = "row_path row"
  obtain first others where q: "map_get m ?p = Some (first # others)"
    using Cons.prems(2) [of ?p] by (cases "map_get m ?p"; cases "the (map_get m ?p)") auto
  have len: "length (nullish_or (map_get (map_set ?p others m) p) []) = length (path_rows p rows)" for p
    using Cons.prems(2) [of p] q by (cases "p = ?p") (auto simp: jm.get_put)
  have paths: "row' \<in> set (nullish_or (map_get (map_set ?p others m) p) []) \<Longrightarrow> row_path row' = p" for p row'
    using Cons.prems(3) [of row' p] q by (cases "p = ?p") (auto simp: jm.get_put)
  obtain out where out: "shift_rows rows (map_set ?p others m) = Some out" "map row_path out = map row_path rows"
      "\<And>p. path_rows p out = nullish_or (map_get (map_set ?p others m) p) []"
    using Cons.IH [OF _ len paths] Cons.prems(1) by auto
  have "row_path first = ?p" using Cons.prems(3) [of first ?p] q by simp
  moreover have "path_rows p (first # out) = nullish_or (map_get m p) []" for p
    using out(3) [of p] q calculation by (cases "p = ?p") (auto simp: jm.get_put)
  ultimately show ?case using out q Cons.prems(1) by simp
next
  case Nil
  then show ?case by simp
qed

lemma ordered_rows_spec:
  assumes "\<forall>row\<in>set rows. getRouteIncomingPath (row_route row) \<noteq> None"
  shows "\<exists>out. ordered_rows rows = Some out \<and> map row_path out = map row_path rows
    \<and> (\<forall>p. path_rows p out = fallback_last (path_rows p rows))"
proof -
  obtain m where m: "rows_by_path rows [] = Some m" using rows_by_path_total [OF assms] by blast
  have q: "nullish_or (map_get m p) [] = path_rows p rows" for p
    using rows_by_path_queue [OF m, of p] by (simp add: jm.get_empty)
  let ?m = "map (\<lambda>(path, rows). (path, fallback_last rows)) m"
  have f: "nullish_or (map_get ?m p) [] = fallback_last (path_rows p rows)" for p
    by (cases "map_get m p") (simp_all add: map_get_map q [of p, symmetric])
  have "\<exists>out. shift_rows rows ?m = Some out \<and> map row_path out = map row_path rows
      \<and> (\<forall>p. path_rows p out = nullish_or (map_get ?m p) [])"
    using rows_by_path_shown [OF m] by (intro shift_rows_queues) (auto simp: f)
  moreover have "ordered_rows rows = shift_rows rows ?m" by (simp add: ordered_rows_def m)
  ultimately show ?thesis unfolding f by simp
qed

lemma ordered_rows_mset:
  assumes "\<And>p. path_rows p out = fallback_last (path_rows p rows)"
  shows "mset out = mset rows"
proof (rule multiset_eqI)
  fix row
  let ?P = "\<lambda>r. row_path r = row_path row"
  have same: "mset (fallback_last xs) = mset xs" for xs
    by (induction xs) (auto simp: fallback_last_def)
  have "count (filter_mset ?P (mset out)) row = count (filter_mset ?P (mset rows)) row"
    using assms [of "row_path row"] same by (metis mset_filter)
  then show "count (mset out) row = count (mset rows) row" by simp
qed

lemma rows_routes [simp]: "map row_route (routeRows ed) = ed_routes ed" "length (routeRows ed) = length (ed_routes ed)"
  by (simp_all add: routeRows_def case_prod_unfold o_def)

lemma routeRows_route: "row \<in> set (routeRows ed) \<Longrightarrow> row_route row \<in> set (ed_routes ed)"
  by (metis (no_types) image_eqI image_set rows_routes(1))

lemma ed_routes_replace:
  assumes "set rs \<subseteq> set (ed_routes ed)"
  shows "ed_routes (replaceRoutes ed rs keys) = rs"
proof -
  have "\<forall>r\<in>set rs. normal_route r" using assms ed_routes_normal by blast
  then show ?thesis by (simp add: ed_routes_def replaceRoutes_def normalized_fix)
qed

lemma fix_spec:
  assumes "\<forall>r\<in>set (ed_routes ed). getRouteIncomingPath r \<noteq> None"
  shows "\<exists>ed' rows. fixCatchAllOrder ed = Some ed' \<and> ed_routes ed' = map row_route rows \<and> routeKeys ed' = map row_key rows
    \<and> map row_path rows = map route_path (ed_routes ed) \<and> mset rows = mset (routeRows ed)
    \<and> (\<forall>p. path_rows p rows = fallback_last (path_rows p (routeRows ed)))"
proof -
  have "\<forall>row\<in>set (routeRows ed). getRouteIncomingPath (row_route row) \<noteq> None" using assms routeRows_route by blast
  then obtain rows where rows: "ordered_rows (routeRows ed) = Some rows"
      "map row_path rows = map row_path (routeRows ed)"
      "\<And>p. path_rows p rows = fallback_last (path_rows p (routeRows ed))"
    using ordered_rows_spec [of "routeRows ed"] by blast
  note m = ordered_rows_mset [OF rows(3)]
  have "set (map row_route rows) \<subseteq> set (ed_routes ed)"
    using mset_eq_setD [OF m] routeRows_route by auto
  then have "ed_routes (replaceRoutes ed (map row_route rows) (map row_key rows)) = map row_route rows"
    by (rule ed_routes_replace)
  moreover have "map row_path (routeRows ed) = map route_path (ed_routes ed)"
    by (simp add: rows_routes(1) [of ed, symmetric] del: rows_routes)
  ultimately show ?thesis using rows m
    by (intro exI [of _ "replaceRoutes ed (map row_route rows) (map row_key rows)"] exI [of _ rows])
       (simp add: fixCatchAllOrder_def, simp add: replaceRoutes_def)
qed

text \<open>Two routes may share a configuration in some order: with the same path they share no model rule
  and are not both fallbacks.\<close>

definition mergeable :: "advanced_route \<Rightarrow> advanced_route \<Rightarrow> bool" where
  "mergeable q r \<longleftrightarrow> (route_path q = route_path r \<longrightarrow>
     set (route_models q) \<inter> set (route_models r) = {} \<and> (route_models q \<noteq> [] \<or> route_models r \<noteq> []))"

lemma sorted_wrt_by_class:
  "(\<And>p. sorted_wrt R (filter (\<lambda>x. f x = p) xs)) \<Longrightarrow> sorted_wrt (\<lambda>x y. f x = f y \<longrightarrow> R x y) xs"
proof (induction xs)
  case (Cons x xs)
  have "sorted_wrt R (filter (\<lambda>y. f y = p) xs)" for p using Cons.prems [of p] by (simp split: if_splits)
  moreover have "R x y" if "y \<in> set xs" "f x = f y" for y using Cons.prems [of "f x"] that by simp
  ultimately show ?case using Cons.IH by simp
qed simp

lemma fallback_last_room:
  assumes "sorted_wrt (\<lambda>q r. mergeable (row_route q) (row_route r)) rows"
  shows "sorted_wrt (\<lambda>q r. leaves_room (row_route q) (row_route r)) (fallback_last rows)"
proof -
  let ?A = "filter (\<lambda>row. route_models (row_route row) \<noteq> []) rows" and ?B = "filter (\<lambda>row. route_models (row_route row) = []) rows"
  have s: "sorted_wrt (\<lambda>q r. mergeable (row_route q) (row_route r)) (filter P rows)" for P
    using assms by (rule sorted_wrt_filter)
  have "sorted_wrt (\<lambda>q r. leaves_room (row_route q) (row_route r)) ?A"
    by (rule sorted_wrt_mono_rel [OF _ s]) (auto simp: mergeable_def leaves_room_def)
  moreover have "sorted_wrt (\<lambda>q r. leaves_room (row_route q) (row_route r)) ?B"
    by (rule sorted_wrt_mono_rel [OF _ s]) (auto simp: mergeable_def leaves_room_def)
  moreover have "leaves_room (row_route q) (row_route r)" if "q \<in> set ?A" "r \<in> set ?B" for q r
    using that by (auto simp: leaves_room_def)
  ultimately show ?thesis by (simp add: fallback_last_def sorted_wrt_append)
qed

lemma validate_ok:
  assumes "\<forall>r\<in>set rs. typed_route r \<and> normal_route r" "rs \<noteq> []" "well_routed URL rs"
  shows "validateAdvancedCustomConfig URL (Some (config_value \<lparr>advanced_routes = rs\<rparr>)) = Some None"
proof -
  have "normalizeAdvancedCustomConfig (config_value \<lparr>advanced_routes = rs\<rparr>) = Some \<lparr>advanced_routes = rs\<rparr>"
    using assms(1) by (intro normalize_config_fix) simp
  moreover have "validate_routes URL 0 rs [] = Some None"
    using validate_routes_spec [OF assms(1), of "[]" "[]" URL] assms(3) by auto
  ultimately show ?thesis using assms(2) by (simp add: validateAdvancedCustomConfig_def)
qed

text \<open>C6. The repair offered when a fallback comes too early does what it says: every position keeps its
  path, the routes of a path that name models keep their order and come before its fallbacks, rows keep their
  keys and none is lost; and if every route is in order by itself and the routes could share a
  configuration in some order, the repaired configuration is valid.\<close>

theorem fix_order_repairs:
  assumes "\<forall>r\<in>set (ed_routes ed). typed_route r"
  shows "\<exists>ed'. fixCatchAllOrder ed = Some ed' \<and> map route_path (ed_routes ed') = map route_path (ed_routes ed)
    \<and> (\<forall>p. filter (\<lambda>r. route_path r = p) (ed_routes ed') =
         filter (\<lambda>r. route_path r = p \<and> \<not> isCatchAllRoute r) (ed_routes ed)
         @ filter (\<lambda>r. route_path r = p \<and> isCatchAllRoute r) (ed_routes ed))
    \<and> mset (zip (ed_routes ed') (routeKeys ed')) = mset (zip (ed_routes ed) (map row_key (routeRows ed)))
    \<and> (ed_routes ed \<noteq> [] \<and> (\<forall>r\<in>set (ed_routes ed). route_ok (URL_api env) r) \<and> sorted_wrt mergeable (ed_routes ed)
        \<longrightarrow> validationError env ed' = Some None)"
proof -
  have "\<forall>r\<in>set (ed_routes ed). getRouteIncomingPath r \<noteq> None" using assms typed_path by auto
  then obtain ed' rows where e: "fixCatchAllOrder ed = Some ed'" "ed_routes ed' = map row_route rows"
      "routeKeys ed' = map row_key rows" "map row_path rows = map route_path (ed_routes ed)"
      "mset rows = mset (routeRows ed)" "\<And>p. path_rows p rows = fallback_last (path_rows p (routeRows ed))"
    using fix_spec by meson
  have "filter (\<lambda>r. route_path r = p) (ed_routes ed') = filter (\<lambda>r. route_path r = p \<and> \<not> isCatchAllRoute r) (ed_routes ed)
         @ filter (\<lambda>r. route_path r = p \<and> isCatchAllRoute r) (ed_routes ed)" for p
    using arg_cong [OF e(6) [of p], of "map row_route"]
    by (simp add: e(2) fallback_last_def filter_map o_def rows_routes(1) [of ed, symmetric] conj_commute del: rows_routes)
  moreover have "mset (zip (ed_routes ed') (routeKeys ed')) = mset (zip (ed_routes ed) (map row_key (routeRows ed)))"
    using arg_cong [OF e(5), of "image_mset (\<lambda>row. (row_route row, row_key row))"]
    by (simp add: e(2,3) rows_routes(1) [of ed, symmetric] zip_map_map zip_same_conv_map o_def flip: mset_map del: rows_routes)
  moreover have "validationError env ed' = Some None"
    if ok: "ed_routes ed \<noteq> []" "\<forall>r\<in>set (ed_routes ed). route_ok (URL_api env) r" "sorted_wrt mergeable (ed_routes ed)"
  proof -
    have set: "set (ed_routes ed') = set (ed_routes ed)"
      using mset_eq_setD [OF e(5)] by (metis e(2) image_set rows_routes(1))
    have "sorted_wrt (\<lambda>q r. mergeable (row_route q) (row_route r)) (routeRows ed)"
      using ok(3) by (metis rows_routes(1) sorted_wrt_map)
    then have "sorted_wrt (\<lambda>q r. leaves_room (row_route q) (row_route r)) (path_rows p rows)" for p
      unfolding e(6) by (intro fallback_last_room sorted_wrt_filter)
    then have "sorted_wrt (\<lambda>q r. row_path q = row_path r \<longrightarrow> leaves_room (row_route q) (row_route r)) rows"
      by (rule sorted_wrt_by_class)
    then have "sorted_wrt leaves_room (ed_routes ed')"
      by (auto simp: e(2) sorted_wrt_map leaves_room_def elim: sorted_wrt_mono_rel [rotated])
    then have "well_routed (URL_api env) (ed_routes ed')" using ok(2) set by (simp add: well_routed_def)
    moreover have "ed_routes ed' \<noteq> []" using ok(1) set by auto
    moreover have "\<forall>r\<in>set (ed_routes ed'). typed_route r \<and> normal_route r" using assms set ed_routes_normal by blast
    ultimately have "validateAdvancedCustomConfig (URL_api env) (Some (config_value \<lparr>advanced_routes = ed_routes ed'\<rparr>)) = Some None"
      by (intro validate_ok)
    then show ?thesis by (simp add: validationError_def ed_routes_def)
  qed
  ultimately show ?thesis using e(1,2,4) by (intro exI [of _ ed']) (simp add: o_def)
qed

definition early_fallback_editor :: editor where
  "early_fallback_editor = (open_editor [])\<lparr>ed_config := \<lparr>advanced_routes =
     [createAdvancedCustomRoute, createAdvancedCustomRoute\<lparr>models := Some [js ''a'']\<rparr>]\<rparr>,
     routeKeys := [initial_key 0, initial_key 1]\<rparr>"

theorem fix_order_repairs_witness:
  "\<exists>ed'. fixCatchAllOrder early_fallback_editor = Some ed' \<and> validationError demo_editor_env ed' = Some None
     \<and> validationError demo_editor_env early_fallback_editor \<noteq> Some None"
proof -
  let ?r = createAdvancedCustomRoute let ?rs = "[?r, ?r\<lparr>models := Some [js ''a'']\<rparr>]"
  have rs: "ed_routes early_fallback_editor = ?rs" by code_simp
  have t: "\<forall>r\<in>set ?rs. typed_route r" by (simp add: createAdvancedCustomRoute_def typed_route_def)
  have "\<forall>r\<in>set ?rs. route_ok (URL_api demo_editor_env) r" by code_simp
  moreover have "sorted_wrt mergeable ?rs" by (simp add: mergeable_def createAdvancedCustomRoute_def route_models_def)
  moreover have "validationError demo_editor_env early_fallback_editor \<noteq> Some None" by code_simp
  ultimately show ?thesis using fix_order_repairs [of early_fallback_editor demo_editor_env] t unfolding rs by blast
qed

section \<open>Row keys\<close>

definition fresh_key :: "nat \<Rightarrow> json" where
  "fresh_key n = JStr (js ''advanced-custom-route-'' @ dec_digits n)"

definition keys_ok :: "editor \<Rightarrow> bool" where
  "keys_ok ed \<longleftrightarrow> length (routeKeys ed) = length (ed_routes ed) \<and> distinct (routeKeys ed)
     \<and> set (routeKeys ed) \<subseteq> range initial_key \<union> fresh_key ` {..routeKeyCounter ed}"

lemma dec_digits_inj: "dec_digits m = dec_digits n \<longleftrightarrow> m = n"
  by (metis dec_digits_val)

lemma fresh_key_inject [simp]: "fresh_key m = fresh_key n \<longleftrightarrow> m = n"
  by (simp add: fresh_key_def dec_digits_inj)

lemma initial_key_inject [simp]: "initial_key m = initial_key n \<longleftrightarrow> m = n"
  by (simp add: initial_key_def dec_digits_inj)

lemma fresh_not_initial [simp]: "fresh_key m \<noteq> initial_key n"
proof
  have i: "js ''advanced-custom-route-initial-'' = js ''advanced-custom-route-'' @ js ''initial-''"
    by (simp add: js_append [symmetric])
  have c: "js ''initial-'' = 105 # js ''nitial-''" by code_simp
  assume "fresh_key m = initial_key n"
  then have "dec_digits m = 105 # js ''nitial-'' @ dec_digits n" by (simp add: fresh_key_def initial_key_def i c)
  then have "is_digit 105" using dec_digits_digit [of 105 m] by simp
  then show False by (simp add: is_digit_def)
qed

lemma routes_of_config [simp]:
  "length (ed_routes (ed\<lparr>ed_config := c\<rparr>)) = length (advanced_routes c)"
  "ed_routes (ed\<lparr>routeKeys := k\<rparr>) = ed_routes ed" "ed_routes (ed\<lparr>routeKeyCounter := n\<rparr>) = ed_routes ed"
  "ed_routes (ed\<lparr>jsonText := t\<rparr>) = ed_routes ed" "ed_routes (ed\<lparr>jsonError := t\<rparr>) = ed_routes ed"
  "ed_routes (ed\<lparr>editMode := md\<rparr>) = ed_routes ed" "ed_routes (ed\<lparr>savedTexts := ts\<rparr>) = ed_routes ed"
  "ed_routes (ed\<lparr>templateKey := t\<rparr>) = ed_routes ed"
  by (simp_all add: ed_routes_def)

lemma json_truthy_keys: "k \<in> range initial_key \<union> fresh_key ` S \<Longrightarrow> json_truthy k"
  by (auto simp: initial_key_def fresh_key_def)

lemma shown_keys:
  assumes "keys_ok ed"
  shows "map row_key (routeRows ed) = routeKeys ed"
proof (rule nth_equalityI)
  fix i assume "i < length (map row_key (routeRows ed))"
  then have i: "i < length (ed_routes ed)" by simp
  moreover have "json_truthy (routeKeys ed ! i)"
    using assms i nth_mem [of i "routeKeys ed"] json_truthy_keys [of "routeKeys ed ! i"] unfolding keys_ok_def
    by (metis subsetD)
  ultimately show "map row_key (routeRows ed) ! i = routeKeys ed ! i"
    using assms by (simp add: routeRows_def nth_enumerate_eq row_key_of_def at_index_def keys_ok_def)
qed (use assms in \<open>simp add: keys_ok_def\<close>)

lemma keys_permuted:
  assumes "keys_ok ed" "mset keys = mset (routeKeys ed)" "length rs = length (ed_routes ed)"
  shows "keys_ok (replaceRoutes ed rs keys)"
  using assms mset_eq_setD [OF assms(2)] mset_eq_imp_distinct_iff [OF assms(2)] mset_eq_length [OF assms(2)]
  by (simp add: keys_ok_def replaceRoutes_def)

lemma keys_frame:
  "keys_ok ed \<Longrightarrow> length (ed_routes ed') = length (ed_routes ed) \<Longrightarrow> routeKeys ed' = routeKeys ed \<Longrightarrow>
     routeKeyCounter ed' = routeKeyCounter ed \<Longrightarrow> keys_ok ed'"
  by (simp add: keys_ok_def)

lemma keys_ok_fields [simp]:
  "keys_ok (ed\<lparr>savedTexts := ts\<rparr>) = keys_ok ed" "keys_ok (ed\<lparr>jsonText := t\<rparr>) = keys_ok ed"
  "keys_ok (ed\<lparr>jsonError := t\<rparr>) = keys_ok ed" "keys_ok (ed\<lparr>editMode := md\<rparr>) = keys_ok ed"
  "keys_ok (ed\<lparr>templateKey := t\<rparr>) = keys_ok ed"
  by (simp_all add: keys_ok_def)

lemma keys_append: "keys_ok ed \<Longrightarrow> keys_ok (append_route ed r)"
  by (auto simp: keys_ok_def append_route_def createRouteKey_def Let_def fresh_key_def [symmetric] atMost_Suc)

lemma set_remove_at: "set (remove_at i xs) \<subseteq> set xs"
  by (auto simp: remove_at_def dest: in_set_takeD in_set_dropD)

lemma distinct_remove_at: "distinct xs \<Longrightarrow> distinct (remove_at i xs)"
  using set_take_disj_set_drop_if_distinct [of xs i "Suc i"] by (simp add: remove_at_def)

lemma length_remove_at: "i < length xs \<Longrightarrow> length (remove_at i xs) = length xs - 1"
  by (simp add: remove_at_def)

lemma keys_remove: "keys_ok ed \<Longrightarrow> i < length (ed_routes ed) \<Longrightarrow> keys_ok (removeRoute ed i)"
  using set_remove_at [of i "routeKeys ed"]
  by (auto simp: keys_ok_def removeRoute_def distinct_remove_at length_remove_at)

lemma mset_move_to: "i < length xs \<Longrightarrow> mset (move_to i j xs) = mset xs"
proof -
  assume "i < length xs"
  then have "mset xs = mset (remove_at i xs) + {#xs ! i#}"
    by (metis add.commute append_take_drop_id id_take_nth_drop mset.simps(2) mset_append remove_at_def
        union_mset_add_mset_right add_mset_add_single)
  moreover have "mset (take j zs @ [x] @ drop j zs) = mset zs + {#x#}" for x :: 'a and zs
    by (metis add.commute append_take_drop_id mset_append mset_single_iff_right union_assoc union_commute mset.simps)
  ultimately show ?thesis by (simp add: move_to_def Let_def)
qed

lemma keys_swap: "keys_ok ed \<Longrightarrow> i < length (ed_routes ed) \<Longrightarrow> j < length (ed_routes ed) \<Longrightarrow> keys_ok (swapRoutes ed i j)"
  using keys_permuted [of ed "swap_at i j (routeKeys ed)" "swap_at i j (ed_routes ed)"]
  by (auto simp: swapRoutes_def shown_keys swap_at_def mset_swap keys_ok_def)

lemma createRouteKeys_fresh:
  "fst (createRouteKeys n ed) = map fresh_key [Suc (routeKeyCounter ed)..<Suc (routeKeyCounter ed + n)]
   \<and> snd (createRouteKeys n ed) = ed\<lparr>routeKeyCounter := routeKeyCounter ed + n\<rparr>"
proof (induction n arbitrary: ed)
  case (Suc n)
  show ?case using Suc.IH [of "ed\<lparr>routeKeyCounter := Suc (routeKeyCounter ed)\<rparr>"]
    by (simp add: createRouteKey_def Let_def case_prod_unfold fresh_key_def [symmetric] upt_rec [of "Suc (routeKeyCounter ed)"])
qed simp

lemma keys_install: "keys_ok (install_config ed c)"
  by (auto simp: install_config_def case_prod_unfold createRouteKeys_fresh keys_ok_def distinct_map inj_on_def Suc_le_eq)

lemma finish_template_keys: "keys_ok (finish_template ed c)"
  by (simp add: finish_template_def Let_def keys_install)

lemma parse_editor_keys: "keys_ok ed \<Longrightarrow> parseJsonEditorConfig env ed = Some (res, ed') \<Longrightarrow> keys_ok ed'"
  using parse_editor [of env ed res ed'] by (intro keys_frame [of ed ed']) (simp_all add: ed_routes_def)

lemma same_path_bound: "samePathIndexes rs i = Some same \<Longrightarrow> j \<in> set same \<Longrightarrow> j < length rs"
  by (auto simp: samePathIndexes_def bind_eq_Some_conv in_set_enumerate_eq dest: map_throwing_length)

lemma at_index_mem: "at_index xs i = Some x \<Longrightarrow> x \<in> set xs"
  by (auto simp: at_index_def split: if_splits)

lemma keys_move:
  assumes "keys_ok ed" "i < length (ed_routes ed)" "moveRouteWithinGroup ed i d = Some ed'"
  shows "keys_ok ed'"
proof -
  obtain same k where s: "samePathIndexes (ed_routes ed) i = Some same"
      "ed' = (case at_index same k of None \<Rightarrow> ed | Some j \<Rightarrow> swapRoutes ed i j)"
    using assms(3) by (auto simp: moveRouteWithinGroup_def bind_eq_Some_conv Let_def)
  show ?thesis
  proof (cases "at_index same k")
    case (Some j)
    then have "j < length (ed_routes ed)" using same_path_bound [OF s(1) at_index_mem [of same k j]] by simp
    then show ?thesis using s(2) Some keys_swap [OF assms(1,2)] by simp
  qed (use assms(1) s(2) in simp)
qed

lemma length_move_to: "i < length xs \<Longrightarrow> length (move_to i j xs) = length xs"
  using mset_eq_length [OF mset_move_to] by blast

lemma keys_move_end:
  assumes "keys_ok ed" "i < length (ed_routes ed)" "moveRouteToGroupEnd ed i = Some ed'"
  shows "keys_ok ed'"
proof -
  have "keys_ok (replaceRoutes ed (move_to i j (ed_routes ed)) (move_to i j (routeKeys ed)))" for j
    using assms(1,2) by (intro keys_permuted) (simp_all add: length_move_to mset_move_to keys_ok_def)
  moreover have "\<exists>j. ed' = ed \<or> ed' = replaceRoutes ed (move_to i j (ed_routes ed)) (move_to i j (routeKeys ed))"
    using assms(3) unfolding moveRouteToGroupEnd_def shown_keys [OF assms(1)]
    by (simp add: bind_eq_Some_conv split: option.splits if_splits) blast+
  ultimately show ?thesis using assms(1) by auto
qed

lemma ordered_rows_shown: "ordered_rows rows = Some out \<Longrightarrow> row \<in> set rows \<Longrightarrow> getRouteIncomingPath (row_route row) \<noteq> None"
  by (auto simp: ordered_rows_def bind_eq_Some_conv dest: rows_by_path_shown)

lemma keys_fix:
  assumes "keys_ok ed" "fixCatchAllOrder ed = Some ed'"
  shows "keys_ok ed'"
proof -
  obtain rows where rows: "ordered_rows (routeRows ed) = Some rows"
      "ed' = replaceRoutes ed (map row_route rows) (map row_key rows)"
    using assms(2) by (auto simp: fixCatchAllOrder_def bind_eq_Some_conv)
  then obtain out where "ordered_rows (routeRows ed) = Some out"
      "\<And>p. path_rows p out = fallback_last (path_rows p (routeRows ed))"
    using ordered_rows_spec [of "routeRows ed"] ordered_rows_shown by blast
  then have m: "mset rows = mset (routeRows ed)" using rows(1) ordered_rows_mset [of rows "routeRows ed"] by simp
  have "mset (map row_key rows) = mset (routeKeys ed)" using m shown_keys [OF assms(1)] by (metis mset_map)
  moreover have "length (map row_route rows) = length (ed_routes ed)" using mset_eq_length [OF m] by simp
  ultimately show ?thesis unfolding rows(2) by (rule keys_permuted [OF assms(1)])
qed

lemma handle_keys:
  assumes "keys_ok ed" "ed_possible ed e" "ed_handle env ed e = Some ed'"
  shows "keys_ok ed'"
proof (cases e)
  case (EdRow i edit)
  then show ?thesis using assms by (auto simp: updateRoute_def Let_def keys_ok_def)
next
  case (EdGroupPath group path)
  then show ?thesis using assms
    by (auto simp: updateGroupIncomingPath_def Let_def shown_keys intro!: keys_permuted)
next
  case (EdTemplate mode)
  then show ?thesis using assms
    by (auto simp: applyTemplate_def Let_def bind_eq_Some_conv intro: finish_template_keys parse_editor_keys
        split: template_mode.splits if_splits option.splits)
next
  case EdVisual
  then show ?thesis using assms
    by (auto simp: switchToVisualMode_def bind_eq_Some_conv keys_install intro: parse_editor_keys split: option.splits)
next
  case EdFormat
  then obtain res ed1 where "parseJsonEditorConfig env ed = Some (res, ed1)"
    "ed' = (case res of None \<Rightarrow> ed1 | Some c \<Rightarrow> ed1\<lparr>jsonText := printed c\<rparr>)"
    using assms(3) by (auto simp: formatJson_def bind_eq_Some_conv)
  then show ?thesis using parse_editor_keys [OF assms(1)] by (auto split: option.splits)
next
  case EdSave
  then show ?thesis using assms
    by (auto simp: saveConfig_dialog_def bind_eq_Some_conv dest!: parse_editor_keys [OF assms(1)] split: option.splits if_splits)
qed (use assms in \<open>auto simp: addRoute_def addRouteForIncomingPath_def Let_def keys_append keys_remove keys_fix
       switchToJsonMode_def handleJsonChange_def intro: keys_move keys_move_end\<close>)

interpretation keys_inv: kept_invariant "ed_step env" keys_ok for env
  by unfold_locales (auto elim!: ed_step.cases intro: handle_keys)

text \<open>C34. Every row on the screen has a key of its own: whatever is done in the dialog there are as many
  keys as routes, they are distinct, and they are the keys the rows are drawn with.\<close>

theorem row_keys_distinct:
  assumes "reaches (ed_step env) (open_editor v) ed"
  shows "length (routeKeys ed) = length (ed_routes ed) \<and> distinct (map row_key (routeRows ed))
    \<and> map row_key (routeRows ed) = routeKeys ed"
proof -
  have "keys_ok (open_editor v)"
    by (auto simp: open_editor_def Let_def keys_ok_def ed_routes_def distinct_map inj_on_def)
  then have "keys_ok ed" by (rule keys_inv.run_keeps [OF assms])
  then show ?thesis using shown_keys [of ed] by (simp add: keys_ok_def)
qed

theorem row_keys_distinct_witness:
  "distinct (map row_key (routeRows (removeRoute (addRoute (addRoute (open_editor []))) 1)))"
proof -
  let ?a = "addRoute (open_editor [])" let ?b = "addRoute ?a" let ?c = "removeRoute ?b 1"
  have "ed_step demo_editor_env (open_editor []) ?a" "ed_step demo_editor_env ?a ?b"
    by (rule ed_step.event [where e = EdAdd]; simp)+
  moreover have "1 < length (ed_routes ?b)" by code_simp
  then have "ed_step demo_editor_env ?b ?c" by (intro ed_step.event [where e = "EdRemove 1"]) simp_all
  ultimately have "reaches (ed_step demo_editor_env) (open_editor []) ?c"
    by (meson reaches_refl reaches_step)
  then show ?thesis using row_keys_distinct by blast
qed

end
