(* ===== verification/FlowGraph.thy ===== *)
theory FlowGraph
  imports Json "HOL-Library.Multiset"
begin

text \<open>
  The flow diagram of the dashboard: \<open>features/dashboard/lib/flow.ts\<close> and \<open>flow-selection.ts\<close>.

  Usage rows become paths through the visible stages (user, node, token, group, model, channel), the
  nodes that are not among the largest of their stage are merged or dropped, and the paths are summed into
  the nodes and links of a Sankey graph. Objects that the code updates inside a \<open>Map\<close> are entries
  of an association list here. The collation of the platform (\<open>localeCompare\<close>), its number format and the
  colour scheme of the chart library are parameters (\<open>flow_env\<close>); no lemma assumes anything
  of them. A field of a row is a number or a string or absent, as its type declares.

  The lemmas show that the graph conserves flow, that merging loses nothing and that shares are fractions of
  the whole, that filters combine as alternatives in a stage and jointly across stages, that the limit
  bounds every stage, and what masking hides.
\<close>

section \<open>Types\<close>

datatype flow_metric = MetricQuota | MetricTokens | MetricRequests

datatype overflow_mode = OverflowAggregate | OverflowHide

datatype flow_role = FlowUser | FlowAdmin | FlowRoot

datatype node_kind = KUser | KNode | KToken | KGroup | KModel | KChannel

record flow_row =
  fr_user_id :: "jnumber option"
  fr_username :: "jstr option"
  fr_node_name :: "jstr option"
  fr_use_group :: "jstr option"
  fr_token_id :: "jnumber option"
  fr_token_name :: "jstr option"
  fr_channel_id :: "jnumber option"
  fr_channel_name :: "jstr option"
  fr_model_name :: "jstr option"
  fr_token_used :: "jnumber option"
  fr_count :: "jnumber option"
  fr_quota :: "jnumber option"

record flow_metrics =
  mt_quota :: jsnum
  mt_tokens :: jsnum
  mt_requests :: jsnum

record path_node =
  pn_id :: jstr
  pn_label :: jstr
  pn_kind :: node_kind

record prepared_path =
  pp_path :: "path_node list"
  pp_metrics :: flow_metrics

record node_rank =
  rank_node :: path_node
  rank_value :: jsnum

record node_filter =
  nf_kind :: node_kind
  nf_id :: jstr

record link_selection =
  ls_source :: jstr
  ls_target :: jstr

record flow_node =
  fn_id :: jstr
  fn_label :: jstr
  fn_kind :: node_kind
  fn_value :: jsnum
  fn_requests :: jsnum
  fn_quota :: jsnum
  fn_tokens :: jsnum
  fn_color :: jstr
  fn_colorKey :: jstr
  fn_highlighted :: "bool option"
  fn_dimmed :: "bool option"

record flow_link =
  fl_source :: jstr
  fl_target :: jstr
  fl_value :: jsnum
  fl_requests :: jsnum
  fl_quota :: jsnum
  fl_tokens :: jsnum
  fl_sourceLabel :: jstr
  fl_targetLabel :: jstr
  fl_color :: jstr
  fl_linkColor :: jstr
  fl_linkAlpha :: jsnum
  fl_hoverColor :: jstr
  fl_colorKey :: jstr
  fl_share :: jsnum
  fl_highlighted :: "bool option"
  fl_dimmed :: "bool option"

record flow_graph =
  g_nodes :: "flow_node list"
  g_links :: "flow_link list"

record user_option =
  uo_value :: jstr
  uo_label :: jstr
  uo_valueLabel :: jstr
  uo_valueRaw :: jsnum
  uo_color :: jstr

record node_option =
  no_kind :: node_kind
  no_value :: jstr
  no_label :: jstr
  no_valueLabel :: jstr
  no_valueRaw :: jsnum
  no_color :: jstr

record filter_options =
  fo_users :: "user_option list"
  fo_nodes :: "node_option list"

record processed_flow =
  pf_summary :: flow_metrics
  pf_flow :: flow_graph
  pf_filterOptions :: filter_options

type_synonym path_context = "(jsnum \<Rightarrow> jstr) option"

record graph_options =
  go_topNodeLimit :: "jnumber option"
  go_overflowMode :: "overflow_mode option"
  go_otherNodeLabel :: "(node_kind \<Rightarrow> jstr) option"
  go_activeNode :: "node_filter option"
  go_activeLink :: "link_selection option"
  go_maskSensitive :: "bool option"

record build_options =
  bo_role :: "flow_role option"
  bo_selectedUsers :: "jstr list option"
  bo_selectedNodes :: "node_filter list option"
  bo_colorPalette :: "jstr list option"
  bo_visibleStages :: "node_kind list option"
  bo_deletedTokenLabel :: path_context
  bo_graph :: graph_options

record scheme_item =
  si_maxDomainLength :: "nat option"
  si_scheme :: "jstr option list"

record flow_env =
  localeCompare :: "jstr \<Rightarrow> jstr \<Rightarrow> int"
  dataScheme :: "scheme_item list"
  formatNumber :: "jsnum \<Rightarrow> jstr"

section \<open>Constants\<close>

definition EMPTY_FLOW_PATH_CONTEXT :: path_context where "EMPTY_FLOW_PATH_CONTEXT = None"
definition DEFAULT_FLOW_ROLE :: flow_role where "DEFAULT_FLOW_ROLE = FlowUser"
definition DEFAULT_FLOW_OVERFLOW_MODE :: overflow_mode where "DEFAULT_FLOW_OVERFLOW_MODE = OverflowAggregate"
definition DEFAULT_FLOW_CHART_COLOR :: jstr where "DEFAULT_FLOW_CHART_COLOR = js ''#1664FF''"

fun kind_name :: "node_kind \<Rightarrow> jstr" where
  "kind_name KUser = js ''user''"
| "kind_name KNode = js ''node''"
| "kind_name KToken = js ''token''"
| "kind_name KGroup = js ''group''"
| "kind_name KModel = js ''model''"
| "kind_name KChannel = js ''channel''"

definition OTHER_FLOW_NODE_IDS :: "node_kind \<Rightarrow> jstr" where
  "OTHER_FLOW_NODE_IDS kind = kind_name kind @ js '':__other__''"

fun DEFAULT_OTHER_FLOW_NODE_LABELS :: "node_kind \<Rightarrow> jstr" where
  "DEFAULT_OTHER_FLOW_NODE_LABELS KUser = js ''Other users''"
| "DEFAULT_OTHER_FLOW_NODE_LABELS KNode = js ''Other nodes''"
| "DEFAULT_OTHER_FLOW_NODE_LABELS KToken = js ''Other tokens''"
| "DEFAULT_OTHER_FLOW_NODE_LABELS KGroup = js ''Other groups''"
| "DEFAULT_OTHER_FLOW_NODE_LABELS KModel = js ''Other models''"
| "DEFAULT_OTHER_FLOW_NODE_LABELS KChannel = js ''Other channels''"

definition SENSITIVE_FLOW_KINDS :: "node_kind list" where
  "SENSITIVE_FLOW_KINDS = [KUser, KNode, KToken, KGroup, KChannel]"

definition OTHER_FLOW_NODE_ID_SET :: "jstr list" where
  "OTHER_FLOW_NODE_ID_SET = map OTHER_FLOW_NODE_IDS [KUser, KNode, KToken, KGroup, KModel, KChannel]"

section \<open>Rows and paths\<close>

definition numberValue :: "jnumber option \<Rightarrow> jsnum" where
  "numberValue v = (case v of Some (Fin n) \<Rightarrow> n | _ \<Rightarrow> 0)"

definition rowMetrics :: "flow_row \<Rightarrow> flow_metrics" where
  "rowMetrics row = \<lparr>mt_quota = numberValue (fr_quota row), mt_tokens = numberValue (fr_token_used row),
     mt_requests = numberValue (fr_count row)\<rparr>"

fun metricValue :: "flow_metrics \<Rightarrow> flow_metric \<Rightarrow> jsnum" where
  "metricValue m MetricRequests = mt_requests m"
| "metricValue m MetricTokens = mt_tokens m"
| "metricValue m MetricQuota = mt_quota m"

definition text_or :: "jstr option \<Rightarrow> string \<Rightarrow> jstr" where
  "text_or v d = or_str (opt_str v) (js d)"

definition userNode :: "flow_row \<Rightarrow> path_node" where
  "userNode row =
     (let userID = numberValue (fr_user_id row) in
      \<lparr>pn_id = js ''user:'' @ (if userID > 0 then Number_toString userID else text_or (fr_username row) ''unknown''),
       pn_label = or_str (opt_str (fr_username row))
         (if userID > 0 then js ''user-'' @ Number_toString userID else js ''Unknown User''),
       pn_kind = KUser\<rparr>)"

definition nodeNameNode :: "flow_row \<Rightarrow> path_node" where
  "nodeNameNode row =
     (let nodeName = text_or (fr_node_name row) ''default-node'' in
      \<lparr>pn_id = js ''node:'' @ nodeName, pn_label = nodeName, pn_kind = KNode\<rparr>)"

definition deletedTokenLabel :: "jsnum \<Rightarrow> path_context \<Rightarrow> jstr" where
  "deletedTokenLabel tokenID ctx =
     (if tokenID \<le> 0 then js ''Unknown Token''
      else case ctx of None \<Rightarrow> js ''token-'' @ Number_toString tokenID | Some f \<Rightarrow> f tokenID)"

definition tokenNode :: "flow_row \<Rightarrow> path_context \<Rightarrow> path_node" where
  "tokenNode row ctx =
     (let tokenID = numberValue (fr_token_id row) in
      \<lparr>pn_id = js ''token:'' @ (if tokenID > 0 then Number_toString tokenID else text_or (fr_token_name row) ''unknown''),
       pn_label = or_str (opt_str (fr_token_name row)) (deletedTokenLabel tokenID ctx), pn_kind = KToken\<rparr>)"

definition groupNode :: "flow_row \<Rightarrow> path_node" where
  "groupNode row =
     (let useGroup = text_or (fr_use_group row) ''unknown'' in
      \<lparr>pn_id = js ''group:'' @ useGroup, pn_label = useGroup, pn_kind = KGroup\<rparr>)"

definition modelNode :: "flow_row \<Rightarrow> path_node" where
  "modelNode row =
     (let model = text_or (fr_model_name row) ''unknown'' in
      \<lparr>pn_id = js ''model:'' @ model, pn_label = text_or (fr_model_name row) ''Unknown Model'', pn_kind = KModel\<rparr>)"

definition channelNode :: "flow_row \<Rightarrow> path_node" where
  "channelNode row =
     (let channelID = numberValue (fr_channel_id row) in
      \<lparr>pn_id = js ''channel:'' @
         (if channelID > 0 then Number_toString channelID else text_or (fr_channel_name row) ''unknown''),
       pn_label = or_str (opt_str (fr_channel_name row))
         (if channelID > 0 then js ''channel-'' @ Number_toString channelID else js ''Unknown''),
       pn_kind = KChannel\<rparr>)"

fun NODE_BUILDERS :: "node_kind \<Rightarrow> flow_row \<Rightarrow> path_context \<Rightarrow> path_node" where
  "NODE_BUILDERS KUser row ctx = userNode row"
| "NODE_BUILDERS KNode row ctx = nodeNameNode row"
| "NODE_BUILDERS KToken row ctx = tokenNode row ctx"
| "NODE_BUILDERS KGroup row ctx = groupNode row"
| "NODE_BUILDERS KModel row ctx = modelNode row"
| "NODE_BUILDERS KChannel row ctx = channelNode row"

fun ROLE_FLOW_STAGES :: "flow_role \<Rightarrow> node_kind list" where
  "ROLE_FLOW_STAGES FlowRoot = [KUser, KNode, KToken, KGroup, KModel, KChannel]"
| "ROLE_FLOW_STAGES FlowAdmin = [KUser, KGroup, KModel, KChannel]"
| "ROLE_FLOW_STAGES FlowUser = [KToken, KGroup, KModel]"

definition MIN_FLOW_STAGES :: nat where "MIN_FLOW_STAGES = 2"

definition getFlowStages :: "flow_role \<Rightarrow> node_kind list" where
  "getFlowStages role = ROLE_FLOW_STAGES role"

definition resolveVisibleStages :: "flow_role \<Rightarrow> node_kind list option \<Rightarrow> node_kind list" where
  "resolveVisibleStages role visibleStages =
     (let stages = getFlowStages role in
      case visibleStages of
        None \<Rightarrow> stages
      | Some visible \<Rightarrow>
          (let filtered = filter (\<lambda>stage. stage \<in> set visible) stages in
           if MIN_FLOW_STAGES \<le> length filtered then filtered else stages))"

definition flowPathForStages :: "flow_row \<Rightarrow> node_kind list \<Rightarrow> path_context \<Rightarrow> path_node list" where
  "flowPathForStages row stages ctx = map (\<lambda>stage. NODE_BUILDERS stage row ctx) stages"

section \<open>Colours\<close>

definition getDashboardChartColors :: "flow_env \<Rightarrow> nat \<Rightarrow> jstr list" where
  "getDashboardChartColors env domainLength =
     (case nullish (find (\<lambda>item. case si_maxDomainLength item of None \<Rightarrow> True | Some n \<Rightarrow> n = 0 \<or> domainLength \<le> n) (dataScheme env))
             (if dataScheme env = [] then None else Some (last (dataScheme env))) of
        None \<Rightarrow> []
      | Some item \<Rightarrow> List.map_filter (\<lambda>color. color) (si_scheme item))"

definition colorAt :: "flow_env \<Rightarrow> nat \<Rightarrow> jstr list option \<Rightarrow> jstr" where
  "colorAt env index palette =
     (let colors = (case palette of
            Some p \<Rightarrow> if length p > 0 then p else getDashboardChartColors env (index + 1)
          | None \<Rightarrow> getDashboardChartColors env (index + 1)) in
      if length colors = 0 then DEFAULT_FLOW_CHART_COLOR else colors ! (index mod length colors))"

definition colorPalette :: "flow_env \<Rightarrow> nat \<Rightarrow> jstr list option \<Rightarrow> jstr list" where
  "colorPalette env colorCount palette =
     (let fromScheme = (let colors = getDashboardChartColors env colorCount in
            if length colors > 0 then colors else [DEFAULT_FLOW_CHART_COLOR]) in
      case palette of
        Some p \<Rightarrow> if length p > 0 then p else fromScheme
      | None \<Rightarrow> fromScheme)"

definition toFixed_text :: "nat \<Rightarrow> jsnum \<Rightarrow> jstr" where
  "toFixed_text p x =
     (let n = nat \<lfloor>x * 10 ^ p + 1 / 2\<rfloor> in dec_digits (n div 10 ^ p) @ js ''.'' @ pad_digits p (n mod 10 ^ p))"

definition hex_number :: "jstr \<Rightarrow> int option" where
  "hex_number s =
     foldl (\<lambda>acc c. case (acc, hex_val c) of (Some n, Some d) \<Rightarrow> Some (16 * n + d) | _ \<Rightarrow> None) (Some 0) s"

text \<open>\<open>alpha\<close> is not negative. Six hexadecimal digits fit 24 bits, so the shifts and masks are those of the
  unbounded integer.\<close>

definition alphaColor :: "jstr \<Rightarrow> jsnum \<Rightarrow> jstr \<times> jsnum" where
  "alphaColor color alpha =
     (let normalized = trim color;
          hex = (if startsWith normalized (js ''#'') then drop 1 normalized else normalized) in
      case (if length hex = 6 then hex_number hex else None) of
        None \<Rightarrow> (normalized, alpha)
      | Some value \<Rightarrow>
          (let red = (value div 65536) mod 256; green = (value div 256) mod 256; blue = value mod 256 in
           (js ''rgba('' @ dec_digits (nat red) @ js '', '' @ dec_digits (nat green) @ js '', ''
              @ dec_digits (nat blue) @ js '', '' @ toFixed_text 2 alpha @ js '')'', 1)))"

definition stableColorMap :: "flow_env \<Rightarrow> jstr list \<Rightarrow> jstr list option \<Rightarrow> (jstr, jstr) jmap" where
  "stableColorMap env keys palette =
     (let uniqueKeys = uniq keys; colors = colorPalette env (length uniqueKeys) palette in
      foldl (\<lambda>m (index, key). map_set key (colorAt env index (Some colors)) m) [] (enumerate 0 uniqueKeys))"

section \<open>Filters\<close>

definition filterRows :: "flow_row list \<Rightarrow> jstr list option \<Rightarrow> flow_row list" where
  "filterRows rows selectedUsers =
     (let selected = nullish_or selectedUsers [] in
      if length selected = 0 then rows else filter (\<lambda>row. pn_id (userNode row) \<in> set selected) rows)"

definition nodeFilterKey :: "node_filter \<Rightarrow> jstr" where
  "nodeFilterKey f = kind_name (nf_kind f) @ [0] @ nf_id f"

text \<open>A \<open>Set\<close> of identifiers is the list of its elements.\<close>

definition normalizeSelectedNodeFilters ::
  "node_filter list option \<Rightarrow> node_kind list \<Rightarrow> (node_kind, jstr list) jmap" where
  "normalizeSelectedNodeFilters selectedNodes stages =
     foldl (\<lambda>filters f.
        if nf_kind f \<notin> set stages then filters
        else map_set (nf_kind f) (List.insert (nf_id f) (nullish_or (map_get filters (nf_kind f)) [])) filters)
       [] (nullish_or selectedNodes [])"

definition path_ids_by_kind :: "path_node list \<Rightarrow> (node_kind, jstr list) jmap" where
  "path_ids_by_kind path =
     foldl (\<lambda>m node. map_set (pn_kind node) (List.insert (pn_id node) (nullish_or (map_get m (pn_kind node)) [])) m)
       [] path"

definition pathMatchesNodeFilters :: "path_node list \<Rightarrow> (node_kind, jstr list) jmap \<Rightarrow> bool" where
  "pathMatchesNodeFilters path filters =
     (if length filters = 0 then True
      else (let byKind = path_ids_by_kind path in
        list_all (\<lambda>(kind, selectedIds). case map_get byKind kind of
            None \<Rightarrow> False
          | Some pathIds \<Rightarrow> list_ex (\<lambda>i. i \<in> set pathIds) selectedIds) filters))"

definition filterRowsByNodes ::
  "flow_row list \<Rightarrow> node_filter list option \<Rightarrow> node_kind list \<Rightarrow> path_context \<Rightarrow> flow_row list" where
  "filterRowsByNodes rows selectedNodes stages ctx =
     (let filters = normalizeSelectedNodeFilters selectedNodes stages in
      if length filters = 0 then rows
      else filter (\<lambda>row. pathMatchesNodeFilters (flowPathForStages row stages ctx) filters) rows)"

definition selectedNodeFiltersExceptKind :: "node_filter list option \<Rightarrow> node_kind \<Rightarrow> node_filter list option" where
  "selectedNodeFiltersExceptKind selectedNodes kind =
     (let filtered = filter (\<lambda>f. nf_kind f \<noteq> kind) (nullish_or selectedNodes []) in
      if length filtered > 0 then Some filtered else None)"

section \<open>Nodes and links\<close>

definition addNode ::
  "(jstr, flow_node) jmap \<Rightarrow> path_node \<Rightarrow> flow_metrics \<Rightarrow> flow_metric \<Rightarrow> jstr \<Rightarrow> jstr \<Rightarrow> (jstr, flow_node) jmap" where
  "addNode m pathNode metrics metric color colorKey =
     (let previous = nullish_or (map_get m (pn_id pathNode))
            \<lparr>fn_id = pn_id pathNode, fn_label = pn_label pathNode, fn_kind = pn_kind pathNode, fn_value = 0,
             fn_requests = 0, fn_quota = 0, fn_tokens = 0, fn_color = color, fn_colorKey = colorKey,
             fn_highlighted = None, fn_dimmed = None\<rparr> in
      map_set (pn_id pathNode)
        (previous\<lparr>fn_value := fn_value previous + metricValue metrics metric,
                  fn_requests := fn_requests previous + mt_requests metrics,
                  fn_quota := fn_quota previous + mt_quota metrics,
                  fn_tokens := fn_tokens previous + mt_tokens metrics\<rparr>) m)"

definition pathLinkKey :: "path_node \<Rightarrow> path_node \<Rightarrow> jstr" where
  "pathLinkKey source target = pn_id source @ [0] @ pn_id target"

definition linkStableKey :: "flow_link \<Rightarrow> jstr" where
  "linkStableKey link = fl_source link @ [0] @ fl_target link"

definition addLink ::
  "(jstr, flow_link) jmap \<Rightarrow> path_node \<Rightarrow> path_node \<Rightarrow> flow_metrics \<Rightarrow> flow_metric \<Rightarrow> jstr \<Rightarrow> jstr
     \<Rightarrow> (jstr, flow_link) jmap" where
  "addLink m source target metrics metric color colorKey =
     (let key = pathLinkKey source target;
          previous = nullish_or (map_get m key)
            \<lparr>fl_source = pn_id source, fl_target = pn_id target, fl_value = 0, fl_requests = 0, fl_quota = 0,
             fl_tokens = 0, fl_sourceLabel = pn_label source, fl_targetLabel = pn_label target, fl_color = color,
             fl_linkColor = color, fl_linkAlpha = 1, fl_hoverColor = color, fl_colorKey = colorKey, fl_share = 0,
             fl_highlighted = None, fl_dimmed = None\<rparr> in
      map_set key
        (previous\<lparr>fl_value := fl_value previous + metricValue metrics metric,
                  fl_requests := fl_requests previous + mt_requests metrics,
                  fl_quota := fl_quota previous + mt_quota metrics,
                  fl_tokens := fl_tokens previous + mt_tokens metrics\<rparr>) m)"

section \<open>Orders\<close>

text \<open>\<open>c || d\<close> on the results of comparators; a comparator sorts by its "not positive" test.\<close>

definition or_cmp :: "jsnum \<Rightarrow> jsnum \<Rightarrow> jsnum" where
  "or_cmp c d = (if c \<noteq> 0 then c else d)"

definition locale_cmp :: "flow_env \<Rightarrow> jstr \<Rightarrow> jstr \<Rightarrow> jsnum" where
  "locale_cmp env a b = of_int (localeCompare env a b)"

definition byValueThenLabel :: "flow_env \<Rightarrow> flow_node \<Rightarrow> flow_node \<Rightarrow> jsnum" where
  "byValueThenLabel env a b = or_cmp (fn_value b - fn_value a) (locale_cmp env (fn_label a) (fn_label b))"

text \<open>\<open>Number(a) - Number(b)\<close> of two flags: \<open>NaN\<close>, which is falsy, when one is \<open>undefined\<close>.\<close>

definition flag_cmp :: "bool option \<Rightarrow> bool option \<Rightarrow> jsnum" where
  "flag_cmp a b = (case (a, b) of (Some x, Some y) \<Rightarrow> of_bool x - of_bool y | _ \<Rightarrow> 0)"

definition byLinkDrawPriority :: "flow_env \<Rightarrow> flow_link \<Rightarrow> flow_link \<Rightarrow> jsnum" where
  "byLinkDrawPriority env a b =
     or_cmp (flag_cmp (fl_dimmed a) (fl_dimmed b))
       (or_cmp (flag_cmp (fl_highlighted b) (fl_highlighted a))
         (or_cmp (fl_value b - fl_value a) (locale_cmp env (linkStableKey a) (linkStableKey b))))"

definition sorted_links_of :: "flow_env \<Rightarrow> flow_link list \<Rightarrow> jstr \<Rightarrow> flow_link list" where
  "sorted_links_of env links source =
     sort_by (\<lambda>a b. or_cmp (fl_value b - fl_value a) (locale_cmp env (linkStableKey a) (linkStableKey b)) \<le> 0)
       (filter (\<lambda>link. fl_source link = source) links)"

text \<open>The links of a source, largest first, become more opaque; a link is found by its key.\<close>

definition assignLinkDisplayColors :: "flow_env \<Rightarrow> flow_link list \<Rightarrow> flow_link list" where
  "assignLinkDisplayColors env links =
     map (\<lambda>link.
       (let sortedLinks = sorted_links_of env links (fl_source link);
            denominator = max (of_nat (length sortedLinks) - 1) 1;
            index = nullish_or (findIndex (\<lambda>l. linkStableKey l = linkStableKey link) sortedLinks) 0;
            alpha = (if length sortedLinks = 1 then 34 / 100
                     else 24 / 100 + (of_nat index / denominator) * (2 / 10));
            displayColor = alphaColor (fl_color link) alpha in
        link\<lparr>fl_linkColor := fst displayColor, fl_linkAlpha := snd displayColor, fl_hoverColor := fl_color link\<rparr>)) links"

section \<open>Largest nodes\<close>

definition buildSummary :: "flow_row list \<Rightarrow> flow_metrics" where
  "buildSummary rows =
     foldl (\<lambda>summary row.
       (let metrics = rowMetrics row in
        summary\<lparr>mt_quota := mt_quota summary + mt_quota metrics, mt_tokens := mt_tokens summary + mt_tokens metrics,
                mt_requests := mt_requests summary + mt_requests metrics\<rparr>))
       \<lparr>mt_quota = 0, mt_tokens = 0, mt_requests = 0\<rparr> rows"

definition normalizeTopNodeLimit :: "jnumber option \<Rightarrow> nat option" where
  "normalizeTopNodeLimit limit =
     (case limit of
        Some (Fin x) \<Rightarrow> (let parsed = \<lfloor>x\<rfloor> in if parsed > 0 then Some (nat parsed) else None)
      | _ \<Rightarrow> None)"

definition otherFlowNode :: "node_kind \<Rightarrow> (node_kind \<Rightarrow> jstr) option \<Rightarrow> path_node" where
  "otherFlowNode kind labeler =
     \<lparr>pn_id = OTHER_FLOW_NODE_IDS kind,
      pn_label = (case labeler of None \<Rightarrow> DEFAULT_OTHER_FLOW_NODE_LABELS kind | Some f \<Rightarrow> f kind), pn_kind = kind\<rparr>"

definition add_rank :: "jsnum \<Rightarrow> (node_kind, (jstr, node_rank) jmap) jmap \<Rightarrow> path_node \<Rightarrow> (node_kind, (jstr, node_rank) jmap) jmap" where
  "add_rank value totals node =
     (case map_get totals (pn_kind node) of
        None \<Rightarrow> totals
      | Some stageTotals \<Rightarrow>
          (let current = nullish_or (map_get stageTotals (pn_id node)) \<lparr>rank_node = node, rank_value = 0\<rparr> in
           map_set (pn_kind node)
             (map_set (pn_id node) (current\<lparr>rank_value := rank_value current + value\<rparr>) stageTotals) totals))"

definition rank_cmp :: "flow_env \<Rightarrow> node_rank \<Rightarrow> node_rank \<Rightarrow> jsnum" where
  "rank_cmp env a b =
     or_cmp (rank_value b - rank_value a)
       (or_cmp (locale_cmp env (pn_label (rank_node a)) (pn_label (rank_node b)))
         (locale_cmp env (pn_id (rank_node a)) (pn_id (rank_node b))))"

definition top_ids :: "flow_env \<Rightarrow> nat \<Rightarrow> (jstr, node_rank) jmap \<Rightarrow> jstr list" where
  "top_ids env limit stageTotals =
     map (\<lambda>rank. pn_id (rank_node rank)) (take limit (sort_by (\<lambda>a b. rank_cmp env a b \<le> 0) (map snd stageTotals)))"

definition stage_totals ::
  "flow_row list \<Rightarrow> flow_metric \<Rightarrow> node_kind list \<Rightarrow> path_context \<Rightarrow> (node_kind, (jstr, node_rank) jmap) jmap" where
  "stage_totals rows metric stages ctx =
     foldl (\<lambda>totals row. foldl (add_rank (metricValue (rowMetrics row) metric)) totals (flowPathForStages row stages ctx))
       (foldl (\<lambda>totals stage. map_set stage [] totals) [] stages) rows"

definition buildTopNodeSets ::
  "flow_env \<Rightarrow> flow_row list \<Rightarrow> flow_metric \<Rightarrow> node_kind list \<Rightarrow> nat option \<Rightarrow> path_context
     \<Rightarrow> (node_kind, jstr list) jmap option" where
  "buildTopNodeSets env rows metric stages limit ctx =
     (case limit of
        None \<Rightarrow> None
      | Some n \<Rightarrow> if n = 0 then None
          else Some (map (\<lambda>(kind, stageTotals). (kind, top_ids env n stageTotals)) (stage_totals rows metric stages ctx)))"

definition isTopFlowNode :: "path_node \<Rightarrow> (node_kind, jstr list) jmap option \<Rightarrow> bool" where
  "isTopFlowNode node topNodeSets =
     (case topNodeSets of
        None \<Rightarrow> True
      | Some sets \<Rightarrow> (case map_get sets (pn_kind node) of None \<Rightarrow> True | Some topNodes \<Rightarrow> pn_id node \<in> set topNodes))"

definition applyTopNodeLimit ::
  "path_node list \<Rightarrow> (node_kind, jstr list) jmap option \<Rightarrow> overflow_mode \<Rightarrow> (node_kind \<Rightarrow> jstr) option
     \<Rightarrow> path_node list option" where
  "applyTopNodeLimit path topNodeSets mode labeler =
     (case topNodeSets of
        None \<Rightarrow> Some path
      | Some _ \<Rightarrow>
        if \<not> list_ex (\<lambda>node. \<not> isTopFlowNode node topNodeSets) path then Some path
        else if mode = OverflowHide then None
        else Some (map (\<lambda>node. if isTopFlowNode node topNodeSets then node else otherFlowNode (pn_kind node) labeler) path))"

section \<open>Highlights and masking\<close>

definition pathContainsFlowNode :: "path_node list \<Rightarrow> node_filter \<Rightarrow> bool" where
  "pathContainsFlowNode path f = list_ex (\<lambda>node. pn_kind node = nf_kind f \<and> pn_id node = nf_id f) path"

abbreviation path_steps :: "path_node list \<Rightarrow> (path_node \<times> path_node) list" where
  "path_steps path \<equiv> zip path (tl path)"

definition pathContainsFlowLink :: "path_node list \<Rightarrow> link_selection \<Rightarrow> bool" where
  "pathContainsFlowLink path link = list_ex (\<lambda>(a, b). pn_id a = ls_source link \<and> pn_id b = ls_target link) (path_steps path)"

definition matches_path :: "node_filter option \<Rightarrow> link_selection option \<Rightarrow> path_node list \<Rightarrow> bool" where
  "matches_path activeNode activeLink path =
     (case activeLink of
        Some link \<Rightarrow> pathContainsFlowLink path link
      | None \<Rightarrow> (case activeNode of None \<Rightarrow> False | Some f \<Rightarrow> pathContainsFlowNode path f))"

text \<open>The highlighted identifiers and link keys, duplicates left in.\<close>

definition buildFlowHighlightSets ::
  "prepared_path list \<Rightarrow> node_filter option \<Rightarrow> link_selection option \<Rightarrow> node_kind list
     \<Rightarrow> (jstr list \<times> jstr list) option" where
  "buildFlowHighlightSets preparedPaths activeNode activeLink stages =
     (let nodeActive = (case activeNode of None \<Rightarrow> False | Some f \<Rightarrow> nf_kind f \<in> set stages) in
      if \<not> nodeActive \<and> activeLink = None then None
      else
        (let paths = filter (matches_path activeNode activeLink) (map pp_path preparedPaths);
             highlightedNodes = concat (map (map pn_id) paths);
             highlightedLinks = concat (map (\<lambda>path. map (\<lambda>(a, b). pathLinkKey a b) (path_steps path)) paths) in
         if length highlightedNodes = 0 then None else Some (highlightedNodes, highlightedLinks)))"

definition FLOW_MASK_TEXT :: jstr where "FLOW_MASK_TEXT = [8226, 8226, 8226, 8226]"

definition maskFlowLabel :: "jstr \<Rightarrow> jstr" where
  "maskFlowLabel label = (if length label = 0 then label else FLOW_MASK_TEXT)"

definition is_masked :: "flow_node \<Rightarrow> bool" where
  "is_masked node \<longleftrightarrow> fn_kind node \<in> set SENSITIVE_FLOW_KINDS \<and> fn_id node \<notin> set OTHER_FLOW_NODE_ID_SET"

definition maskFlowGraphLabels ::
  "(jstr, flow_node) jmap \<Rightarrow> (jstr, flow_link) jmap \<Rightarrow> (jstr, flow_node) jmap \<times> (jstr, flow_link) jmap" where
  "maskFlowGraphLabels nodes links =
     (let maskedById = foldl (\<lambda>m (_, node). if is_masked node then map_set (fn_id node) (maskFlowLabel (fn_label node)) m else m)
            [] nodes;
          nodes = map (\<lambda>(key, node). (key, if is_masked node then node\<lparr>fn_label := maskFlowLabel (fn_label node)\<rparr> else node)) nodes in
      if length maskedById = 0 then (nodes, links)
      else (nodes, map (\<lambda>(key, link). (key, link
        \<lparr>fl_sourceLabel := nullish_or (map_get maskedById (fl_source link)) (fl_sourceLabel link),
         fl_targetLabel := nullish_or (map_get maskedById (fl_target link)) (fl_targetLabel link)\<rparr>)) links))"

definition highlight_node :: "(jstr list \<times> jstr list) option \<Rightarrow> flow_node \<Rightarrow> flow_node" where
  "highlight_node highlightSets node =
     (case highlightSets of
        None \<Rightarrow> node
      | Some (ids, _) \<Rightarrow> node\<lparr>fn_highlighted := Some (fn_id node \<in> set ids), fn_dimmed := Some (fn_id node \<notin> set ids)\<rparr>)"

definition highlight_link :: "(jstr list \<times> jstr list) option \<Rightarrow> flow_link \<Rightarrow> flow_link" where
  "highlight_link highlightSets link =
     (case highlightSets of
        None \<Rightarrow> link
      | Some (_, keys) \<Rightarrow> link\<lparr>fl_highlighted := Some (linkStableKey link \<in> set keys),
            fl_dimmed := Some (linkStableKey link \<notin> set keys)\<rparr>)"

definition applyFlowHighlights ::
  "(jstr, flow_node) jmap \<Rightarrow> (jstr, flow_link) jmap \<Rightarrow> (jstr list \<times> jstr list) option
     \<Rightarrow> (jstr, flow_node) jmap \<times> (jstr, flow_link) jmap" where
  "applyFlowHighlights nodes links highlightSets =
     (map (\<lambda>(key, node). (key, highlight_node highlightSets node)) nodes,
      map (\<lambda>(key, link). (key, highlight_link highlightSets link)) links)"

section \<open>The graph\<close>

definition prepare_paths ::
  "flow_env \<Rightarrow> flow_row list \<Rightarrow> flow_metric \<Rightarrow> node_kind list \<Rightarrow> path_context \<Rightarrow> graph_options \<Rightarrow> prepared_path list" where
  "prepare_paths env rows metric stages ctx options =
     (let topNodeSets = buildTopNodeSets env rows metric stages (normalizeTopNodeLimit (go_topNodeLimit options)) ctx;
          overflowMode = nullish_or (go_overflowMode options) DEFAULT_FLOW_OVERFLOW_MODE in
      List.map_filter (\<lambda>row. map_option (\<lambda>path. \<lparr>pp_path = path, pp_metrics = rowMetrics row\<rparr>)
        (applyTopNodeLimit (flowPathForStages row stages ctx) topNodeSets overflowMode (go_otherNodeLabel options))) rows)"

definition first_ids :: "prepared_path list \<Rightarrow> jstr list" where
  "first_ids preparedPaths =
     filter (\<lambda>i. i \<noteq> []) (List.map_filter (\<lambda>p. case pp_path p of [] \<Rightarrow> None | node # _ \<Rightarrow> Some (pn_id node)) preparedPaths)"

definition add_path ::
  "flow_env \<Rightarrow> flow_metric \<Rightarrow> (jstr, jstr) jmap \<Rightarrow> jstr list option
     \<Rightarrow> (jstr, flow_node) jmap \<times> (jstr, flow_link) jmap \<Rightarrow> prepared_path \<Rightarrow> (jstr, flow_node) jmap \<times> (jstr, flow_link) jmap" where
  "add_path env metric colors palette state prepared =
     (case (state, pp_path prepared) of
        (_, []) \<Rightarrow> state
      | ((nodes, links), rootNode # _) \<Rightarrow>
          (let color = nullish_or (map_get colors (pn_id rootNode)) (colorAt env 0 palette) in
           (foldl (\<lambda>m node. addNode m node (pp_metrics prepared) metric color (pn_id rootNode)) nodes (pp_path prepared),
            foldl (\<lambda>m (source, target). addLink m source target (pp_metrics prepared) metric color (pn_id rootNode)) links
              (path_steps (pp_path prepared)))))"

definition link_cmp :: "flow_env \<Rightarrow> flow_link \<Rightarrow> flow_link \<Rightarrow> jsnum" where
  "link_cmp env a b = or_cmp (locale_cmp env (fl_source a) (fl_source b)) (locale_cmp env (fl_target a) (fl_target b))"

definition share_links :: "jstr list \<Rightarrow> flow_link list \<Rightarrow> flow_link list" where
  "share_links firstStepSources flowLinks =
     (let total = sum_list (map fl_value (filter (\<lambda>link. fl_source link \<in> set firstStepSources) flowLinks)) in
      map (\<lambda>link. link\<lparr>fl_share := (if total > 0 then fl_value link / total else 0)\<rparr>) flowLinks)"

definition buildFlowGraph ::
  "flow_env \<Rightarrow> flow_row list \<Rightarrow> flow_metric \<Rightarrow> flow_role \<Rightarrow> jstr list option \<Rightarrow> node_kind list option
     \<Rightarrow> path_context \<Rightarrow> graph_options \<Rightarrow> flow_graph" where
  "buildFlowGraph env rows metric role palette visibleStages ctx options =
     (let stages = resolveVisibleStages role visibleStages;
          preparedPaths = prepare_paths env rows metric stages ctx options;
          colors = stableColorMap env (sort_by (\<lambda>a b. localeCompare env a b \<le> 0) (first_ids preparedPaths)) palette;
          (nodes, links) = foldl (add_path env metric colors palette) ([], []) preparedPaths;
          (nodes, links) = (if truthy (go_maskSensitive options) then maskFlowGraphLabels nodes links else (nodes, links));
          (nodes, links) = applyFlowHighlights nodes links
            (buildFlowHighlightSets preparedPaths (go_activeNode options) (go_activeLink options) stages);
          flowLinks = sort_by (\<lambda>a b. link_cmp env a b \<le> 0) (map snd links);
          flowLinks = share_links (first_ids preparedPaths) flowLinks in
      \<lparr>g_nodes = sort_by (\<lambda>a b. byValueThenLabel env a b \<le> 0) (map snd nodes),
       g_links = assignLinkDisplayColors env flowLinks\<rparr>)"

section \<open>Filter options\<close>

definition falsy_number :: "jnumber option \<Rightarrow> bool" where
  "falsy_number v = (case v of None \<Rightarrow> True | Some n \<Rightarrow> n = Fin 0 \<or> n = NaN)"

definition add_user :: "flow_env \<Rightarrow> flow_metric \<Rightarrow> (jstr, jstr) jmap \<Rightarrow> jstr list option
    \<Rightarrow> (jstr, jstr \<times> jsnum \<times> jstr) jmap \<Rightarrow> flow_row \<Rightarrow> (jstr, jstr \<times> jsnum \<times> jstr) jmap" where
  "add_user env metric colors palette users row =
     (let user = userNode row in
      if falsy_number (fr_user_id row) \<and> opt_str (fr_username row) = [] then users
      else case nullish_or (map_get users (pn_id user))
                  (pn_label user, 0, nullish_or (map_get colors (pn_id user)) (colorAt env 0 palette)) of
        (label, value, color) \<Rightarrow> map_set (pn_id user) (label, value + metricValue (rowMetrics row) metric, color) users)"

definition buildUserFilterOptions :: "flow_env \<Rightarrow> flow_row list \<Rightarrow> flow_metric \<Rightarrow> jstr list option \<Rightarrow> user_option list" where
  "buildUserFilterOptions env rows metric palette =
     (let colors = stableColorMap env (sort_by (\<lambda>a b. localeCompare env a b \<le> 0) (map (\<lambda>row. pn_id (userNode row)) rows)) palette;
          users = foldl (add_user env metric colors palette) [] rows in
      sort_by (\<lambda>a b. or_cmp (uo_valueRaw b - uo_valueRaw a) (locale_cmp env (uo_label a) (uo_label b)) \<le> 0)
        (map (\<lambda>(value, label, raw, color). \<lparr>uo_value = value, uo_label = label, uo_valueLabel = formatNumber env raw,
            uo_valueRaw = raw, uo_color = color\<rparr>) users))"

definition add_option :: "flow_metric \<Rightarrow> node_kind \<Rightarrow> path_context \<Rightarrow> (jstr, node_rank) jmap \<Rightarrow> flow_row \<Rightarrow> (jstr, node_rank) jmap" where
  "add_option metric stage ctx totals row =
     (let node = NODE_BUILDERS stage row ctx;
          key = nodeFilterKey \<lparr>nf_kind = pn_kind node, nf_id = pn_id node\<rparr>;
          current = nullish_or (map_get totals key) \<lparr>rank_node = node, rank_value = 0\<rparr> in
      map_set key (current\<lparr>rank_value := rank_value current + metricValue (rowMetrics row) metric\<rparr>) totals)"

definition stage_options ::
  "flow_env \<Rightarrow> flow_row list \<Rightarrow> flow_metric \<Rightarrow> node_kind list \<Rightarrow> jstr list option \<Rightarrow> path_context
     \<Rightarrow> node_filter list option \<Rightarrow> (jstr, jstr) jmap \<Rightarrow> node_kind \<Rightarrow> node_option list" where
  "stage_options env rows metric stages palette ctx selectedNodes colors stage =
     (let candidateRows = filterRowsByNodes rows (selectedNodeFiltersExceptKind selectedNodes stage) stages ctx;
          totals = foldl (add_option metric stage ctx) [] candidateRows in
      map (\<lambda>rank. \<lparr>no_kind = pn_kind (rank_node rank), no_value = pn_id (rank_node rank), no_label = pn_label (rank_node rank),
          no_valueLabel = formatNumber env (rank_value rank), no_valueRaw = rank_value rank,
          no_color = nullish_or (map_get colors (pn_id (rank_node rank))) (colorAt env 0 palette)\<rparr>) (map snd totals))"

definition option_cmp :: "flow_env \<Rightarrow> node_kind list \<Rightarrow> node_option \<Rightarrow> node_option \<Rightarrow> jsnum" where
  "option_cmp env stages a b =
     (let order = (\<lambda>kind. of_nat (nullish_or (findIndex (\<lambda>stage. stage = kind) stages) 0)) in
      or_cmp (order (no_kind a) - order (no_kind b))
        (or_cmp (no_valueRaw b - no_valueRaw a)
          (or_cmp (locale_cmp env (no_label a) (no_label b)) (locale_cmp env (no_value a) (no_value b)))))"

definition buildNodeFilterOptions ::
  "flow_env \<Rightarrow> flow_row list \<Rightarrow> flow_metric \<Rightarrow> flow_role \<Rightarrow> node_kind list option \<Rightarrow> jstr list option \<Rightarrow> path_context
     \<Rightarrow> node_filter list option \<Rightarrow> node_option list" where
  "buildNodeFilterOptions env rows metric role visibleStages palette ctx selectedNodes =
     (let stages = resolveVisibleStages role visibleStages;
          colorIds = uniq (concat (map (\<lambda>row. map pn_id (flowPathForStages row stages ctx)) rows));
          colors = stableColorMap env (sort_by (\<lambda>a b. localeCompare env a b \<le> 0) colorIds) palette in
      sort_by (\<lambda>a b. option_cmp env stages a b \<le> 0)
        (concat (map (stage_options env rows metric stages palette ctx selectedNodes colors) stages)))"

definition buildFlowFilterOptions ::
  "flow_env \<Rightarrow> flow_row list \<Rightarrow> flow_metric \<Rightarrow> jstr list option \<Rightarrow> flow_role \<Rightarrow> node_kind list option
     \<Rightarrow> node_filter list option \<Rightarrow> filter_options" where
  "buildFlowFilterOptions env rows metric palette role visibleStages selectedNodes =
     \<lparr>fo_users = buildUserFilterOptions env rows metric palette,
      fo_nodes = buildNodeFilterOptions env rows metric role visibleStages palette EMPTY_FLOW_PATH_CONTEXT selectedNodes\<rparr>"

definition buildDashboardFlowData :: "flow_env \<Rightarrow> flow_row list \<Rightarrow> flow_metric \<Rightarrow> build_options \<Rightarrow> processed_flow" where
  "buildDashboardFlowData env rows metric options =
     (let role = nullish_or (bo_role options) DEFAULT_FLOW_ROLE;
          palette = bo_colorPalette options;
          ctx = bo_deletedTokenLabel options;
          stages = resolveVisibleStages role (bo_visibleStages options);
          userFilteredRows = filterRows rows (bo_selectedUsers options);
          filteredRows = filterRowsByNodes userFilteredRows (bo_selectedNodes options) stages ctx in
      \<lparr>pf_summary = buildSummary filteredRows,
       pf_flow = buildFlowGraph env filteredRows metric role palette (bo_visibleStages options) ctx (bo_graph options),
       pf_filterOptions =
         \<lparr>fo_users = buildUserFilterOptions env rows metric palette,
          fo_nodes = buildNodeFilterOptions env userFilteredRows metric role (bo_visibleStages options) palette ctx
            (bo_selectedNodes options)\<rparr>\<rparr>)"

section \<open>Drawing\<close>

text \<open>The links of the chart specification: positive links in drawing order with their layer.\<close>

definition sankey_links :: "flow_env \<Rightarrow> flow_graph \<Rightarrow> (flow_link \<times> nat) list" where
  "sankey_links env flow =
     map (\<lambda>(index, link).
        (link, if truthy (fl_highlighted link) then 1000000 + index
               else if truthy (fl_dimmed link) then index else 100000 + index))
       (enumerate 0 (sort_by (\<lambda>a b. byLinkDrawPriority env a b \<le> 0) (filter (\<lambda>link. fl_value link > 0) (g_links flow))))"

section \<open>flow-selection.ts\<close>

datatype display_state = FlowLoading | FlowError | FlowEmpty | FlowChart

record flow_response =
  fs_success :: bool
  fs_data :: "flow_row list option"
  fs_message :: "jstr option"

definition requireSuccessfulFlowRows :: "flow_response \<Rightarrow> jstr \<Rightarrow> jstr + flow_row list" where
  "requireSuccessfulFlowRows response fallbackMessage =
     (if \<not> fs_success response then Inl (or_str (opt_str (fs_message response)) fallbackMessage)
      else Inr (nullish_or (fs_data response) []))"

definition flowDisplayState :: "bool \<Rightarrow> bool \<Rightarrow> nat \<Rightarrow> bool \<Rightarrow> display_state" where
  "flowDisplayState isLoading isError linkCount themeReady =
     (if isLoading then FlowLoading else if isError then FlowError else if linkCount = 0 then FlowEmpty
      else if \<not> themeReady then FlowLoading else FlowChart)"

definition compactFlowSelectionLabel :: "nat \<Rightarrow> jstr" where
  "compactFlowSelectionLabel n = (if n > 0 then dec_digits n else js ''*'')"

definition visibleFlowUsers :: "user_option list \<Rightarrow> jstr list \<Rightarrow> user_option list" where
  "visibleFlowUsers users selectedUsers =
     (if length selectedUsers = 0 then users else filter (\<lambda>user. uo_value user \<in> set selectedUsers) users)"

section \<open>Identifiers\<close>

lemma mset_insert_by: "mset (insert_by le x xs) = add_mset x (mset xs)"
  by (induction xs) auto

lemma mset_sort_by [simp]: "mset (sort_by le xs) = mset xs"
  by (induction xs) (simp_all add: mset_insert_by)

lemma distinct_map_sort_by [simp]: "distinct (map f (sort_by le xs)) \<longleftrightarrow> distinct (map f xs)"
  by (rule mset_eq_imp_distinct_iff) simp

lemma Number_toString_no_nul: "0 \<notin> set (Number_toString x)"
proof -
  have d: "0 \<notin> set (dec_digits n)" for n using dec_digits_digit [of 0 n] by (auto simp: is_digit_def)
  have p: "0 \<notin> set (pad_digits k n)" for k n using pad_digits_digit [of 0 k n] by (auto simp: is_digit_def)
  have "0 \<notin> set (exponent_form m k)" for m k
  proof -
    obtain s t where st: "strip_zeros m 0 = (s, t)" by fastforce
    have "0 \<notin> set (case dec_digits s of [c] \<Rightarrow> [c] | c # cs \<Rightarrow> c # 46 # cs | [] \<Rightarrow> [])"
      using d [of s] by (cases "dec_digits s"; cases "tl (dec_digits s)") simp_all
    then show ?thesis using d st by (simp add: exponent_form_def Let_def)
  qed
  then show ?thesis using d p by (simp add: Number_toString_def Let_def)
qed

text \<open>An identifier starts with the name of its kind and a colon.\<close>

definition of_kind :: "node_kind \<Rightarrow> jstr \<Rightarrow> bool" where
  "of_kind k i \<longleftrightarrow> startsWith i (kind_name k @ js '':'')"

lemma of_kind_unique: "of_kind k i \<Longrightarrow> of_kind k' i \<Longrightarrow> k = k'"
proof -
  assume a: "of_kind k i" "of_kind k' i"
  have p: "kind_name k = takeWhile (\<lambda>c. c \<noteq> 58) i" if pre: "of_kind k i" for k
  proof -
    obtain r where "i = (kind_name k @ js '':'') @ r" using pre unfolding of_kind_def startsWith_split by blast
    moreover have "js '':'' = [58]" by code_simp
    moreover have "58 \<notin> set (kind_name k)" by (induction k; code_simp)
    then have "takeWhile (\<lambda>c. c \<noteq> 58) (kind_name k @ 58 # r) = kind_name k"
      by (subst takeWhile_append2) auto
    ultimately show ?thesis by simp
  qed
  have "kind_name k = kind_name k'" using a p by metis
  then show "k = k'" by (cases k; cases k') simp_all
qed

definition clean_text :: "jstr option \<Rightarrow> bool" where
  "clean_text v \<longleftrightarrow> 0 \<notin> set (opt_str v)"

text \<open>A row whose names hold no \<open>NUL\<close>, the character that separates the two ends in a link key.\<close>

definition clean_row :: "flow_row \<Rightarrow> bool" where
  "clean_row row \<longleftrightarrow> clean_text (fr_username row) \<and> clean_text (fr_node_name row) \<and> clean_text (fr_use_group row)
     \<and> clean_text (fr_token_name row) \<and> clean_text (fr_channel_name row) \<and> clean_text (fr_model_name row)"

definition node_ok :: "path_node \<Rightarrow> bool" where
  "node_ok n \<longleftrightarrow> of_kind (pn_kind n) (pn_id n) \<and> 0 \<notin> set (pn_id n)"

lemma js_no_nul: "(0 \<in> set (js s)) = (CHR 0x00 \<in> set s)"
proof -
  have "(0::int) = of_char c \<longleftrightarrow> c = CHR 0x00" for c
  proof -
    have "(of_char (CHR 0x00) :: int) = 0" by code_simp
    then show ?thesis by (metis injD inj_of_char)
  qed
  then show ?thesis by (auto simp: js_def image_iff)
qed

lemma text_or_clean: "clean_text v \<Longrightarrow> CHR 0x00 \<notin> set d \<Longrightarrow> 0 \<notin> set (text_or v d)"
  by (cases "opt_str v = []") (simp_all add: text_or_def clean_text_def js_no_nul)

lemma builder_kind [simp]: "pn_kind (NODE_BUILDERS k row ctx) = k"
  by (cases k) (simp_all add: userNode_def nodeNameNode_def tokenNode_def groupNode_def modelNode_def channelNode_def Let_def)

lemma builder_of_kind: "of_kind k (pn_id (NODE_BUILDERS k row ctx))"
  by (cases k) (simp_all add: userNode_def nodeNameNode_def tokenNode_def groupNode_def modelNode_def channelNode_def
      Let_def of_kind_def js_append [symmetric])

lemma builder_clean: "clean_row row \<Longrightarrow> 0 \<notin> set (pn_id (NODE_BUILDERS k row ctx))"
  by (cases k) (simp_all add: userNode_def nodeNameNode_def tokenNode_def groupNode_def modelNode_def channelNode_def
      Let_def clean_row_def js_no_nul text_or_clean Number_toString_no_nul)

lemma builder_ok: "clean_row row \<Longrightarrow> node_ok (NODE_BUILDERS k row ctx)"
  by (simp add: node_ok_def builder_of_kind builder_clean)

lemma other_ok [simp]: "node_ok (otherFlowNode k f)" "pn_kind (otherFlowNode k f) = k"
proof -
  have "0 \<notin> set (kind_name k)" by (cases k) (simp_all add: js_no_nul)
  moreover have "js '':__other__'' = js '':'' @ js ''__other__''" by (simp add: js_append [symmetric])
  ultimately show "node_ok (otherFlowNode k f)"
    by (simp add: node_ok_def otherFlowNode_def OTHER_FLOW_NODE_IDS_def of_kind_def js_no_nul startsWith_append
        flip: append_assoc)
qed (simp add: otherFlowNode_def)

section \<open>Sums over maps\<close>

definition msum :: "('v \<Rightarrow> jsnum) \<Rightarrow> ('k, 'v) jmap \<Rightarrow> jsnum" where
  "msum f m = sum_list (map (\<lambda>(k, v). f v) m)"

lemma msum_set:
  "distinct (map fst m) \<Longrightarrow>
     msum f (map_set k v m) = msum f m + f v - (case map_get m k of None \<Rightarrow> 0 | Some w \<Rightarrow> f w)"
proof (induction m)
  case (Cons kw m)
  obtain k' w where kw: "kw = (k', w)" by fastforce
  show ?case
  proof (cases "k' = k")
    case True
    then show ?thesis by (simp add: kw msum_def map_set_def map_get_def)
  next
    case False
    then show ?thesis using Cons by (simp add: kw msum_def map_set_def map_get_def)
  qed
qed (simp add: msum_def map_set_def map_get_def)

lemma map_set_mem: "(k', w) \<in> set (map_set k v m) \<Longrightarrow> (k', w) = (k, v) \<or> (k', w) \<in> set m"
  unfolding map_set_def by (induction m) (auto split: if_splits)

lemma map_set_distinct: "distinct (map fst m) \<Longrightarrow> distinct (map fst (map_set k v m))"
  by (simp add: map_set_def distinct_update)

lemma map_get_mem: "map_get m k = Some v \<Longrightarrow> (k, v) \<in> set m"
  by (simp add: map_get_def map_of_SomeD)

lemma map_get_iff: "distinct (map fst m) \<Longrightarrow> (k, w) \<in> set m \<longleftrightarrow> map_get m k = Some w"
  by (simp add: map_get_def)

definition nodes_ok :: "(jstr, flow_node) jmap \<Rightarrow> bool" where
  "nodes_ok m \<longleftrightarrow> distinct (map fst m) \<and> (\<forall>(k, n)\<in>set m. fn_id n = k \<and> of_kind (fn_kind n) k)"

definition links_ok :: "(jstr, flow_link) jmap \<Rightarrow> bool" where
  "links_ok m \<longleftrightarrow> distinct (map fst m) \<and> (\<forall>(k, l)\<in>set m. linkStableKey l = k \<and> 0 \<notin> set (fl_source l))"

lemma nodes_okD: "nodes_ok m \<Longrightarrow> map_get m k = Some n \<Longrightarrow> fn_id n = k \<and> of_kind (fn_kind n) k"
  by (auto simp: nodes_ok_def dest: map_get_mem)

lemma links_okD: "links_ok m \<Longrightarrow> map_get m k = Some l \<Longrightarrow> linkStableKey l = k \<and> 0 \<notin> set (fl_source l)"
  by (auto simp: links_ok_def dest: map_get_mem)

lemma nul_key_unique: "0 \<notin> set a \<Longrightarrow> 0 \<notin> set b \<Longrightarrow> a @ 0 # x = b @ (0::int) # y \<Longrightarrow> a = b \<and> x = y"
proof (induction a arbitrary: b)
  case Nil
  then show ?case by (cases b) auto
next
  case (Cons c a)
  then show ?case by (cases b) auto
qed

abbreviation nsum :: "(jstr \<Rightarrow> node_kind \<Rightarrow> bool) \<Rightarrow> (jstr, flow_node) jmap \<Rightarrow> jsnum" where
  "nsum Q \<equiv> msum (\<lambda>n. if Q (fn_id n) (fn_kind n) then fn_value n else 0)"

abbreviation lsum :: "(jstr \<Rightarrow> jstr \<Rightarrow> bool) \<Rightarrow> (jstr, flow_link) jmap \<Rightarrow> jsnum" where
  "lsum Q \<equiv> msum (\<lambda>l. if Q (fl_source l) (fl_target l) then fl_value l else 0)"

lemma addNode_ok:
  assumes "nodes_ok m" "node_ok pn"
  shows "nodes_ok (addNode m pn mt metric c ck)
    \<and> nsum Q (addNode m pn mt metric c ck) = nsum Q m + (if Q (pn_id pn) (pn_kind pn) then metricValue mt metric else 0)"
proof (cases "map_get m (pn_id pn)")
  case None
  then show ?thesis using assms
    by (auto simp: addNode_def Let_def nodes_ok_def node_ok_def msum_set map_set_distinct dest!: map_set_mem)
next
  case (Some n)
  then have "fn_id n = pn_id pn" "fn_kind n = pn_kind pn"
    using nodes_okD [OF assms(1) Some] assms(2) of_kind_unique [of "fn_kind n" "pn_id pn" "pn_kind pn"]
    by (simp_all add: node_ok_def)
  with Some show ?thesis using assms
    by (auto simp: addNode_def Let_def nodes_ok_def node_ok_def msum_set map_set_distinct dest!: map_set_mem)
qed

lemma addLink_ok:
  assumes "links_ok m" "node_ok a" "node_ok b"
  shows "links_ok (addLink m a b mt metric c ck)
    \<and> lsum Q (addLink m a b mt metric c ck) = lsum Q m + (if Q (pn_id a) (pn_id b) then metricValue mt metric else 0)"
proof (cases "map_get m (pathLinkKey a b)")
  case None
  then show ?thesis using assms
    by (auto simp: addLink_def Let_def links_ok_def node_ok_def msum_set map_set_distinct linkStableKey_def pathLinkKey_def
        dest!: map_set_mem)
next
  case (Some l)
  then have "fl_source l = pn_id a" "fl_target l = pn_id b"
    using links_okD [OF assms(1)] assms(2) nul_key_unique [of "fl_source l" "pn_id a"]
    by (auto simp: node_ok_def linkStableKey_def pathLinkKey_def)
  with Some show ?thesis using assms
    by (auto simp: addLink_def Let_def links_ok_def node_ok_def msum_set map_set_distinct linkStableKey_def pathLinkKey_def
        dest!: map_set_mem)
qed

lemma add_nodes_ok:
  "nodes_ok m \<Longrightarrow> list_all node_ok path \<Longrightarrow>
     nodes_ok (foldl (\<lambda>m n. addNode m n mt metric c ck) m path)
     \<and> nsum Q (foldl (\<lambda>m n. addNode m n mt metric c ck) m path) =
       nsum Q m + sum_list (map (\<lambda>n. if Q (pn_id n) (pn_kind n) then metricValue mt metric else 0) path)"
  by (induction path arbitrary: m) (simp_all add: addNode_ok)

lemma add_links_ok:
  "links_ok m \<Longrightarrow> list_all (\<lambda>(a, b). node_ok a \<and> node_ok b) steps \<Longrightarrow>
     links_ok (foldl (\<lambda>m (a, b). addLink m a b mt metric c ck) m steps)
     \<and> lsum Q (foldl (\<lambda>m (a, b). addLink m a b mt metric c ck) m steps) =
       lsum Q m + sum_list (map (\<lambda>(a, b). if Q (pn_id a) (pn_id b) then metricValue mt metric else 0) steps)"
  by (induction steps arbitrary: m) (auto simp: addLink_ok)

definition path_value :: "flow_metric \<Rightarrow> prepared_path \<Rightarrow> jsnum" where
  "path_value metric p = metricValue (pp_metrics p) metric"

definition node_flow :: "flow_metric \<Rightarrow> (jstr \<Rightarrow> node_kind \<Rightarrow> bool) \<Rightarrow> prepared_path list \<Rightarrow> jsnum" where
  "node_flow metric Q ps = sum_list (map (\<lambda>p.
     sum_list (map (\<lambda>n. if Q (pn_id n) (pn_kind n) then path_value metric p else 0) (pp_path p))) ps)"

definition link_flow :: "flow_metric \<Rightarrow> (jstr \<Rightarrow> jstr \<Rightarrow> bool) \<Rightarrow> prepared_path list \<Rightarrow> jsnum" where
  "link_flow metric Q ps = sum_list (map (\<lambda>p.
     sum_list (map (\<lambda>(a, b). if Q (pn_id a) (pn_id b) then path_value metric p else 0) (path_steps (pp_path p)))) ps)"

definition paths_ok :: "prepared_path list \<Rightarrow> bool" where
  "paths_ok ps \<longleftrightarrow> (\<forall>p\<in>set ps. list_all node_ok (pp_path p))"

lemma steps_ok: "list_all node_ok path \<Longrightarrow> list_all (\<lambda>(a, b). node_ok a \<and> node_ok b) (path_steps path)"
proof (cases path)
  case (Cons n ns)
  assume "list_all node_ok path"
  then have "node_ok a \<and> node_ok b" if "(a, b) \<in> set (path_steps path)" for a b
    using set_zip_leftD [OF that] set_zip_rightD [OF that] Cons by (auto simp: list_all_iff)
  then show ?thesis by (auto simp: list_all_iff)
qed simp

lemma add_path_ok:
  assumes "nodes_ok N" "links_ok L" "list_all node_ok (pp_path p)" "add_path env metric colors palette (N, L) p = (N', L')"
  shows "nodes_ok N' \<and> links_ok L' \<and> nsum Q N' = nsum Q N + node_flow metric Q [p] \<and> lsum R L' = lsum R L + link_flow metric R [p]"
proof (cases "pp_path p")
  case Nil
  then show ?thesis using assms by (auto simp: add_path_def node_flow_def link_flow_def)
next
  case (Cons n ns)
  let ?c = "nullish_or (map_get colors (pn_id n)) (colorAt env 0 palette)"
  have "N' = foldl (\<lambda>m node. addNode m node (pp_metrics p) metric ?c (pn_id n)) N (pp_path p)"
      "L' = foldl (\<lambda>m (a, b). addLink m a b (pp_metrics p) metric ?c (pn_id n)) L (path_steps (pp_path p))"
    using assms(4) Cons by (simp_all add: add_path_def Let_def)
  then show ?thesis using add_nodes_ok [OF assms(1,3)] add_links_ok [OF assms(2) steps_ok [OF assms(3)]]
    unfolding path_value_def by (simp add: node_flow_def link_flow_def path_value_def cong: if_cong)
qed

lemma add_paths_ok:
  "nodes_ok N \<Longrightarrow> links_ok L \<Longrightarrow> paths_ok ps \<Longrightarrow> foldl (add_path env metric colors palette) (N, L) ps = (N', L') \<Longrightarrow>
     nodes_ok N' \<and> links_ok L' \<and> nsum Q N' = nsum Q N + node_flow metric Q ps \<and> lsum R L' = lsum R L + link_flow metric R ps"
proof (induction ps arbitrary: N L)
  case (Cons p ps)
  obtain N1 L1 where 1: "add_path env metric colors palette (N, L) p = (N1, L1)" by fastforce
  have "nodes_ok N1 \<and> links_ok L1 \<and> nsum Q N1 = nsum Q N + node_flow metric Q [p] \<and> lsum R L1 = lsum R L + link_flow metric R [p]"
    using add_path_ok [OF Cons.prems(1,2) _ 1] Cons.prems(3) by (auto simp: paths_ok_def)
  then show ?case using Cons.IH [of N1 L1] Cons.prems(3,4) 1
    by (simp add: paths_ok_def node_flow_def link_flow_def)
qed (simp add: node_flow_def link_flow_def)

section \<open>The prepared paths\<close>

lemma role_stages_distinct: "distinct (ROLE_FLOW_STAGES role)" "2 \<le> length (ROLE_FLOW_STAGES role)"
  by (cases role; simp)+

lemma stages_distinct: "distinct (resolveVisibleStages role visible)"
  by (auto simp: resolveVisibleStages_def getFlowStages_def role_stages_distinct Let_def split: option.split)

lemma stages_two: "2 \<le> length (resolveVisibleStages role visible)"
  by (auto simp: resolveVisibleStages_def getFlowStages_def role_stages_distinct Let_def MIN_FLOW_STAGES_def split: option.split)

lemma stage_path_kinds [simp]: "map pn_kind (flowPathForStages row stages ctx) = stages"
  by (simp add: flowPathForStages_def o_def)

lemma stage_path_ok: "clean_row row \<Longrightarrow> list_all node_ok (flowPathForStages row stages ctx)"
  by (simp add: flowPathForStages_def list_all_iff builder_ok)

lemma limited_path:
  assumes "applyTopNodeLimit path sets mode f = Some path'" "list_all node_ok path"
  shows "list_all node_ok path' \<and> map pn_kind path' = map pn_kind path"
  using assms by (auto simp: applyTopNodeLimit_def list_all_iff split: option.splits if_splits)

lemma prepared_mem:
  assumes "p \<in> set (prepare_paths env rows metric stages ctx options)"
  obtains row where "row \<in> set rows" "pp_metrics p = rowMetrics row"
    "applyTopNodeLimit (flowPathForStages row stages ctx)
       (buildTopNodeSets env rows metric stages (normalizeTopNodeLimit (go_topNodeLimit options)) ctx)
       (nullish_or (go_overflowMode options) DEFAULT_FLOW_OVERFLOW_MODE) (go_otherNodeLabel options) = Some (pp_path p)"
  using assms by (auto simp: prepare_paths_def Let_def map_filter_def)

lemma prepared_ok:
  assumes "\<forall>row\<in>set rows. clean_row row" "p \<in> set (prepare_paths env rows metric stages ctx options)"
  shows "list_all node_ok (pp_path p) \<and> map pn_kind (pp_path p) = stages"
proof (rule prepared_mem [OF assms(2)])
  fix row
  assume r: "row \<in> set rows" and a: "applyTopNodeLimit (flowPathForStages row stages ctx)
       (buildTopNodeSets env rows metric stages (normalizeTopNodeLimit (go_topNodeLimit options)) ctx)
       (nullish_or (go_overflowMode options) DEFAULT_FLOW_OVERFLOW_MODE) (go_otherNodeLabel options) = Some (pp_path p)"
  have "list_all node_ok (flowPathForStages row stages ctx)" using assms(1) r by (simp add: stage_path_ok)
  then show ?thesis using limited_path [OF a] by simp
qed

lemma prepared_paths_ok:
  "\<forall>row\<in>set rows. clean_row row \<Longrightarrow> paths_ok (prepare_paths env rows metric stages ctx options)"
  by (simp add: paths_ok_def prepared_ok)

section \<open>What the graph keeps of the sums\<close>

text \<open>Masking, highlighting, sorting, shares and colours leave identifiers, kinds, ends and values alone.\<close>

definition node_core :: "flow_node \<Rightarrow> jstr \<times> node_kind \<times> jsnum" where
  "node_core n = (fn_id n, fn_kind n, fn_value n)"

definition link_core :: "flow_link \<Rightarrow> jstr \<times> jstr \<times> jsnum" where
  "link_core l = (fl_source l, fl_target l, fl_value l)"

lemma mask_core:
  assumes "maskFlowGraphLabels N L = (N', L')"
  shows "map node_core (map snd N') = map node_core (map snd N) \<and> map link_core (map snd L') = map link_core (map snd L)"
  using assms by (auto simp: maskFlowGraphLabels_def Let_def node_core_def link_core_def split: if_splits)

lemma highlight_core:
  assumes "applyFlowHighlights N L h = (N', L')"
  shows "map node_core (map snd N') = map node_core (map snd N) \<and> map link_core (map snd L') = map link_core (map snd L)"
  using assms by (auto simp: applyFlowHighlights_def node_core_def link_core_def highlight_node_def highlight_link_def
      split: option.splits)

lemma share_core: "map link_core (share_links f ls) = map link_core ls"
  by (simp add: share_links_def Let_def link_core_def)

lemma colors_core: "map link_core (assignLinkDisplayColors env ls) = map link_core ls"
  by (simp add: assignLinkDisplayColors_def Let_def link_core_def)

definition raw_graph ::
  "flow_env \<Rightarrow> flow_metric \<Rightarrow> jstr list option \<Rightarrow> prepared_path list \<Rightarrow> (jstr, flow_node) jmap \<times> (jstr, flow_link) jmap" where
  "raw_graph env metric palette ps =
     foldl (add_path env metric
       (stableColorMap env (sort_by (\<lambda>a b. localeCompare env a b \<le> 0) (first_ids ps)) palette) palette) ([], []) ps"

lemma graph_shape:
  assumes "ps = prepare_paths env rows metric (resolveVisibleStages role visible) ctx options"
    and "raw_graph env metric palette ps = (N, L)"
    and "g = buildFlowGraph env rows metric role palette visible ctx options"
    and "(if truthy (go_maskSensitive options) then maskFlowGraphLabels N L else (N, L)) = (N1, L1)"
    and "applyFlowHighlights N1 L1 (buildFlowHighlightSets ps (go_activeNode options) (go_activeLink options)
      (resolveVisibleStages role visible)) = (N2, L2)"
  shows "g_nodes g = sort_by (\<lambda>a b. byValueThenLabel env a b \<le> 0) (map snd N2)"
    and "g_links g = assignLinkDisplayColors env (share_links (first_ids ps) (sort_by (\<lambda>a b. link_cmp env a b \<le> 0) (map snd L2)))"
  using assms(2,4,5) unfolding assms(3) buildFlowGraph_def Let_def assms(1) [symmetric] raw_graph_def by simp_all

lemma graph_core:
  assumes "ps = prepare_paths env rows metric (resolveVisibleStages role visible) ctx options"
    and "raw_graph env metric palette ps = (N, L)"
    and "g = buildFlowGraph env rows metric role palette visible ctx options"
  shows "mset (map node_core (g_nodes g)) = mset (map node_core (map snd N))
    \<and> mset (map link_core (g_links g)) = mset (map link_core (map snd L))"
proof -
  obtain N1 L1 where 1: "(if truthy (go_maskSensitive options) then maskFlowGraphLabels N L else (N, L)) = (N1, L1)"
    by fastforce
  obtain N2 L2 where 2: "applyFlowHighlights N1 L1 (buildFlowHighlightSets ps (go_activeNode options) (go_activeLink options)
      (resolveVisibleStages role visible)) = (N2, L2)" by fastforce
  have c1: "map node_core (map snd N1) = map node_core (map snd N) \<and> map link_core (map snd L1) = map link_core (map snd L)"
    using 1 mask_core [of N L N1 L1] by (cases "truthy (go_maskSensitive options)") simp_all
  note c2 = highlight_core [OF 2]
  note g = graph_shape [OF assms(1,2,3) 1 2]
  have "mset (map node_core (g_nodes g)) = mset (map node_core (map snd N2))"
    by (simp only: g mset_map mset_sort_by)
  moreover have "mset (map link_core (g_links g)) = mset (map link_core (map snd L2))"
    by (simp only: g colors_core share_core mset_map mset_sort_by)
  ultimately show ?thesis using c1 c2 by (simp only:)
qed

lemma graph_sums:
  assumes "\<forall>row\<in>set rows. clean_row row"
    and "ps = prepare_paths env rows metric (resolveVisibleStages role visible) ctx options"
    and "g = buildFlowGraph env rows metric role palette visible ctx options"
  shows "sum_list (map (\<lambda>n. if Q (fn_id n) (fn_kind n) then fn_value n else 0) (g_nodes g)) = node_flow metric Q ps
    \<and> sum_list (map (\<lambda>l. if R (fl_source l) (fl_target l) then fl_value l else 0) (g_links g)) = link_flow metric R ps
    \<and> distinct (map fn_id (g_nodes g)) \<and> (\<forall>n\<in>set (g_nodes g). of_kind (fn_kind n) (fn_id n))"
proof -
  obtain N L where raw: "raw_graph env metric palette ps = (N, L)" by fastforce
  have "nodes_ok []" "links_ok []" by (simp_all add: nodes_ok_def links_ok_def)
  then have s: "nodes_ok N" "nsum Q N = node_flow metric Q ps" "lsum R L = link_flow metric R ps"
    using add_paths_ok [of "[]" "[]" ps env metric _ palette N L Q R] raw prepared_paths_ok [OF assms(1)]
    by (auto simp: raw_graph_def assms(2) msum_def)
  note c = graph_core [OF assms(2) raw assms(3)]
  have n: "sum_list (map (\<lambda>n. f (node_core n)) (g_nodes g)) = sum_list (map (\<lambda>n. f (node_core n)) (map snd N))"
    for f :: "_ \<Rightarrow> jsnum"
    using arg_cong [OF conjunct1 [OF c], of "\<lambda>M. sum_mset (image_mset f M)"]
    by (simp add: o_def flip: sum_mset_sum_list mset_map)
  have l: "sum_list (map (\<lambda>l. f (link_core l)) (g_links g)) = sum_list (map (\<lambda>l. f (link_core l)) (map snd L))"
    for f :: "_ \<Rightarrow> jsnum"
    using arg_cong [OF conjunct2 [OF c], of "\<lambda>M. sum_mset (image_mset f M)"]
    by (simp add: o_def flip: sum_mset_sum_list mset_map)
  have "map fn_id (map snd N) = map fst N" using s(1) by (auto simp: nodes_ok_def)
  moreover have "mset (map fn_id (g_nodes g)) = mset (map fn_id (map snd N))"
    using arg_cong [OF conjunct1 [OF c], of "image_mset fst"] by (simp add: node_core_def o_def flip: mset_map)
  ultimately have "distinct (map fn_id (g_nodes g))"
    using s(1) mset_eq_imp_distinct_iff by (metis nodes_ok_def)
  moreover have "of_kind (fn_kind n) (fn_id n)" if "n \<in> set (g_nodes g)" for n
  proof -
    have "node_core n \<in> set (map node_core (map snd N))" using mset_eq_setD [OF conjunct1 [OF c]] that by auto
    then obtain k n' where "(k, n') \<in> set N" "node_core n = node_core n'" by auto
    then show ?thesis using s(1) by (auto simp: nodes_ok_def node_core_def)
  qed
  ultimately show ?thesis
    using s n [of "\<lambda>(i, k, v). if Q i k then v else 0"] l [of "\<lambda>(a, b, v). if R a b then v else 0"]
    by (simp add: node_core_def link_core_def msum_def o_def case_prod_unfold cong: if_cong)
qed

section \<open>Conservation\<close>

lemma map_fst_steps: "map fst (path_steps path) = butlast path"
  by (cases path) (simp_all add: map_fst_zip_take butlast_conv_take)

lemma map_snd_steps: "map snd (path_steps path) = tl path"
  by (cases path) (simp_all add: map_snd_zip_take)

lemma steps_source_sum:
  "sum_list (map (\<lambda>(a, b). f a) (path_steps path)) = sum_list (map f (butlast path))" for f :: "path_node \<Rightarrow> jsnum"
  using arg_cong [OF map_fst_steps [of path], of "\<lambda>ns. sum_list (map f ns)"] by (simp add: o_def case_prod_unfold)

lemma steps_target_sum:
  "sum_list (map (\<lambda>(a, b). f b) (path_steps path)) = sum_list (map f (tl path))" for f :: "path_node \<Rightarrow> jsnum"
  using arg_cong [OF map_snd_steps [of path], of "\<lambda>ns. sum_list (map f ns)"] by (simp add: o_def case_prod_unfold)

lemma out_flow:
  assumes "\<And>p. p \<in> set ps \<Longrightarrow> pp_path p \<noteq> [] \<Longrightarrow> \<not> Q (pn_id (last (pp_path p)))"
  shows "link_flow metric (\<lambda>a b. Q a) ps = node_flow metric (\<lambda>i k. Q i) ps"
proof -
  have e: "sum_list (map (\<lambda>n. if Q (pn_id n) then v else 0) (butlast path)) = sum_list (map (\<lambda>n. if Q (pn_id n) then v else 0) path)"
    if "path \<noteq> [] \<Longrightarrow> \<not> Q (pn_id (last path))" for path and v :: jsnum
    using that by (cases path rule: rev_cases) simp_all
  have "sum_list (map (\<lambda>(a, b). if Q (pn_id a) then path_value metric p else 0) (path_steps (pp_path p))) =
      sum_list (map (\<lambda>n. if Q (pn_id n) then path_value metric p else 0) (pp_path p))" if "p \<in> set ps" for p
    unfolding steps_source_sum by (rule e) (rule assms [OF that])
  then show ?thesis unfolding link_flow_def node_flow_def by (simp cong: map_cong)
qed

lemma in_flow:
  assumes "\<And>p. p \<in> set ps \<Longrightarrow> pp_path p \<noteq> [] \<Longrightarrow> \<not> Q (pn_id (hd (pp_path p)))"
  shows "link_flow metric (\<lambda>a b. Q b) ps = node_flow metric (\<lambda>i k. Q i) ps"
proof -
  have e: "sum_list (map (\<lambda>n. if Q (pn_id n) then v else 0) (tl path)) = sum_list (map (\<lambda>n. if Q (pn_id n) then v else 0) path)"
    if "path \<noteq> [] \<Longrightarrow> \<not> Q (pn_id (hd path))" for path and v :: jsnum
    using that by (cases path) simp_all
  have "sum_list (map (\<lambda>(a, b). if Q (pn_id b) then path_value metric p else 0) (path_steps (pp_path p))) =
      sum_list (map (\<lambda>n. if Q (pn_id n) then path_value metric p else 0) (pp_path p))" if "p \<in> set ps" for p
    unfolding steps_target_sum by (rule e) (rule assms [OF that])
  then show ?thesis unfolding link_flow_def node_flow_def by (simp cong: map_cong)
qed

lemma single_sum:
  "distinct (map f xs) \<Longrightarrow> x \<in> set xs \<Longrightarrow> sum_list (map (\<lambda>y. if f y = f x then g y else 0) xs) = g x"
  for g :: "'a \<Rightarrow> jsnum"
proof (induction xs)
  case (Cons y ys)
  show ?case
  proof (cases "y = x")
    case True
    then have "f z \<noteq> f x" if "z \<in> set ys" for z using Cons.prems(1) that by (metis distinct.simps(2) image_eqI list.set_map list.simps(9))
    then have "sum_list (map (\<lambda>y. if f y = f x then g y else 0) ys) = 0" by (induction ys) auto
    then show ?thesis using True by simp
  next
    case False
    then have "x \<in> set ys" "f y \<noteq> f x" using Cons.prems by auto
    then show ?thesis using Cons by simp
  qed
qed simp

lemma end_kinds:
  assumes "list_all node_ok path" "map pn_kind path = stages" "path \<noteq> []" "of_kind k i"
  shows "pn_id (last path) = i \<Longrightarrow> k = last stages" and "pn_id (hd path) = i \<Longrightarrow> k = hd stages"
proof -
  have "node_ok (last path)" "node_ok (hd path)" using assms(1,3) by (simp_all add: list_all_iff)
  moreover have "pn_kind (last path) = last stages" "pn_kind (hd path) = hd stages"
    using assms(2,3) by (auto simp: last_map hd_map)
  ultimately show "pn_id (last path) = i \<Longrightarrow> k = last stages" "pn_id (hd path) = i \<Longrightarrow> k = hd stages"
    using assms(4) of_kind_unique by (auto simp: node_ok_def)
qed

text \<open>C3. The diagram conserves flow. For rows whose names hold no NUL character, every node carries
  exactly what its outgoing links carry, unless it stands in the last visible stage, and exactly what
  its incoming links carry, unless it stands in the first.\<close>

theorem flow_conserved:
  assumes "\<forall>row\<in>set rows. clean_row row"
    and "g = buildFlowGraph env rows metric role palette visible ctx options"
    and "n \<in> set (g_nodes g)" "stages = resolveVisibleStages role visible"
  shows "(fn_kind n \<noteq> last stages \<longrightarrow>
      sum_list (map (\<lambda>l. if fl_source l = fn_id n then fl_value l else 0) (g_links g)) = fn_value n)
    \<and> (fn_kind n \<noteq> hd stages \<longrightarrow>
      sum_list (map (\<lambda>l. if fl_target l = fn_id n then fl_value l else 0) (g_links g)) = fn_value n)"
proof -
  let ?i = "fn_id n"
  define ps where "ps = prepare_paths env rows metric (resolveVisibleStages role visible) ctx options"
  note sums = graph_sums [OF assms(1) ps_def assms(2)]
  have k: "of_kind (fn_kind n) ?i" and v: "fn_value n = node_flow metric (\<lambda>i k. i = ?i) ps"
    using sums [of "\<lambda>i k. i = ?i"] single_sum [of fn_id "g_nodes g" n fn_value] assms(3) by auto
  have ends: "p \<in> set ps \<Longrightarrow> pp_path p \<noteq> [] \<Longrightarrow> (pn_id (last (pp_path p)) = ?i \<longrightarrow> fn_kind n = last stages)
      \<and> (pn_id (hd (pp_path p)) = ?i \<longrightarrow> fn_kind n = hd stages)" for p
    using prepared_ok [OF assms(1), of p env metric stages ctx options] end_kinds [OF _ _ _ k, of "pp_path p" stages]
    unfolding ps_def assms(4) by blast
  show ?thesis
  proof (intro conjI impI)
    assume "fn_kind n \<noteq> last stages"
    then have "link_flow metric (\<lambda>a b. a = ?i) ps = fn_value n" unfolding v using ends by (intro out_flow) blast
    then show "sum_list (map (\<lambda>l. if fl_source l = ?i then fl_value l else 0) (g_links g)) = fn_value n"
      using sums [where R = "\<lambda>a b. a = ?i"] by simp
  next
    assume "fn_kind n \<noteq> hd stages"
    then have "link_flow metric (\<lambda>a b. b = ?i) ps = fn_value n" unfolding v using ends by (intro in_flow) blast
    then show "sum_list (map (\<lambda>l. if fl_target l = ?i then fl_value l else 0) (g_links g)) = fn_value n"
      using sums [where R = "\<lambda>a b. b = ?i"] by simp
  qed
qed

fun unit_compare :: "jstr \<Rightarrow> jstr \<Rightarrow> int" where
  "unit_compare [] [] = 0"
| "unit_compare [] (_ # _) = - 1"
| "unit_compare (_ # _) [] = 1"
| "unit_compare (a # s) (b # t) = (if a < b then - 1 else if b < a then 1 else unit_compare s t)"

definition demo_flow_env :: flow_env where
  "demo_flow_env = \<lparr>localeCompare = unit_compare, dataScheme = [], formatNumber = Number_toString\<rparr>"

definition demo_row :: "string \<Rightarrow> jsnum \<Rightarrow> flow_row" where
  "demo_row model quota = \<lparr>fr_user_id = None, fr_username = None, fr_node_name = None, fr_use_group = None, fr_token_id = None,
     fr_token_name = Some (js ''k''), fr_channel_id = None, fr_channel_name = None, fr_model_name = Some (js model),
     fr_token_used = None, fr_count = None, fr_quota = Some (Fin quota)\<rparr>"

definition demo_rows :: "flow_row list" where
  "demo_rows = [demo_row ''m'' 2, demo_row ''n'' 1]"

definition demo_graph_options :: graph_options where
  "demo_graph_options = \<lparr>go_topNodeLimit = Some (Fin 1), go_overflowMode = None, go_otherNodeLabel = None,
     go_activeNode = None, go_activeLink = None, go_maskSensitive = Some True\<rparr>"

definition demo_graph :: flow_graph where
  "demo_graph = buildFlowGraph demo_flow_env demo_rows MetricQuota FlowUser None None None demo_graph_options"

lemma demo_rows_clean: "\<forall>row\<in>set demo_rows. clean_row row"
  by code_simp

lemma demo_graph_first: "hd (g_nodes demo_graph) \<in> set (g_nodes demo_graph)"
    "fn_kind (hd (g_nodes demo_graph)) \<noteq> last (resolveVisibleStages FlowUser None)" "fn_value (hd (g_nodes demo_graph)) = 3"
  by code_simp+

theorem flow_conserved_witness:
  "sum_list (map (\<lambda>l. if fl_source l = fn_id (hd (g_nodes demo_graph)) then fl_value l else 0) (g_links demo_graph)) = 3"
  using flow_conserved [OF demo_rows_clean demo_graph_def demo_graph_first(1) refl] demo_graph_first(2,3) by simp

section \<open>Totals and shares\<close>

definition total_value :: "flow_metric \<Rightarrow> prepared_path list \<Rightarrow> jsnum" where
  "total_value metric ps = sum_list (map (path_value metric) ps)"

lemma summary_total: "metricValue (buildSummary rows) metric = sum_list (map (\<lambda>row. metricValue (rowMetrics row) metric) rows)"
proof -
  have "metricValue (foldl (\<lambda>summary row.
       (let metrics = rowMetrics row in
        summary\<lparr>mt_quota := mt_quota summary + mt_quota metrics, mt_tokens := mt_tokens summary + mt_tokens metrics,
                mt_requests := mt_requests summary + mt_requests metrics\<rparr>)) acc rows) metric =
      metricValue acc metric + sum_list (map (\<lambda>row. metricValue (rowMetrics row) metric) rows)" for acc :: flow_metrics
    by (cases metric; induction rows arbitrary: acc) (simp_all add: Let_def algebra_simps)
  then show ?thesis by (cases metric) (simp_all add: buildSummary_def)
qed

text \<open>What merging makes of a node; hiding drops the paths on which it would change something.\<close>

definition kept_or_other ::
  "(node_kind, jstr list) jmap option \<Rightarrow> (node_kind \<Rightarrow> jstr) option \<Rightarrow> path_node \<Rightarrow> path_node" where
  "kept_or_other sets f node = (if isTopFlowNode node sets then node else otherFlowNode (pn_kind node) f)"

lemma limit_path:
  "applyTopNodeLimit path sets mode f = Some path' \<Longrightarrow> path' = map (kept_or_other sets f) path"
  "\<exists>path'. applyTopNodeLimit path sets OverflowAggregate f = Some path'"
proof -
  have "map (kept_or_other sets f) path = path" if "\<not> list_ex (\<lambda>node. \<not> isTopFlowNode node sets) path"
    using that by (intro map_idI) (simp add: kept_or_other_def list_ex_iff)
  then show "applyTopNodeLimit path sets mode f = Some path' \<Longrightarrow> path' = map (kept_or_other sets f) path"
    by (auto simp: applyTopNodeLimit_def kept_or_other_def isTopFlowNode_def list_ex_iff map_idI split: option.splits if_splits)
qed (auto simp: applyTopNodeLimit_def split: option.split)

lemma prepare_aggregate:
  assumes "nullish_or (go_overflowMode options) DEFAULT_FLOW_OVERFLOW_MODE = OverflowAggregate"
    and "sets = buildTopNodeSets env rows metric stages (normalizeTopNodeLimit (go_topNodeLimit options)) ctx"
  shows "prepare_paths env rows metric stages ctx options = map (\<lambda>row.
    \<lparr>pp_path = map (kept_or_other sets (go_otherNodeLabel options)) (flowPathForStages row stages ctx), pp_metrics = rowMetrics row\<rparr>) rows"
proof -
  have "applyTopNodeLimit path sets OverflowAggregate f = Some (map (kept_or_other sets f) path)" for path f
    using limit_path by blast
  then show ?thesis using assms by (simp add: prepare_paths_def Let_def map_filter_def)
qed

lemma aggregate_total:
  assumes "nullish_or (go_overflowMode options) DEFAULT_FLOW_OVERFLOW_MODE = OverflowAggregate"
  shows "total_value metric (prepare_paths env rows metric stages ctx options) = metricValue (buildSummary rows) metric"
  unfolding prepare_aggregate [OF assms refl] by (simp add: total_value_def summary_total path_value_def o_def)

lemma one_of_kind:
  "distinct (map f xs) \<Longrightarrow> k \<in> set (map f xs) \<Longrightarrow> sum_list (map (\<lambda>x. if f x = k then v else 0) xs) = v" for v :: jsnum
  using single_sum [of f xs _ "\<lambda>x. v"] by auto

lemma stage_flow:
  assumes "\<And>p. p \<in> set ps \<Longrightarrow> map pn_kind (pp_path p) = stages" "distinct stages" "k \<in> set stages"
  shows "node_flow metric (\<lambda>i k'. k' = k) ps = total_value metric ps"
proof -
  have "sum_list (map (\<lambda>n. if pn_kind n = k then path_value metric p else 0) (pp_path p)) = path_value metric p"
    if "p \<in> set ps" for p using assms(1) [OF that] assms(2,3) one_of_kind [of pn_kind "pp_path p" k] by simp
  then show ?thesis unfolding node_flow_def total_value_def by (simp cong: map_cong)
qed

lemma first_flow:
  assumes "\<And>p. p \<in> set ps \<Longrightarrow> \<exists>n m ns. pp_path p = n # m # ns \<and> Q (pn_id n) \<and> (\<forall>x\<in>set (m # ns). \<not> Q (pn_id x))"
  shows "link_flow metric (\<lambda>a b. Q a) ps = total_value metric ps"
proof -
  have "sum_list (map (\<lambda>(a, b). if Q (pn_id a) then path_value metric p else 0) (path_steps (pp_path p))) = path_value metric p"
    if mem: "p \<in> set ps" for p
  proof -
    obtain n m ns where p: "pp_path p = n # m # ns" "Q (pn_id n)" and no: "\<forall>x\<in>set (m # ns). \<not> Q (pn_id x)"
      using assms [OF mem] by blast
    have "\<not> Q (pn_id x)" if "x \<in> set (butlast (m # ns))" for x using no in_set_butlastD [OF that] by blast
    then have "map (\<lambda>x. if Q (pn_id x) then path_value metric p else 0) (butlast (m # ns)) =
        map (\<lambda>x. 0) (butlast (m # ns))" by (intro map_cong) auto
    then have "sum_list (map (\<lambda>x. if Q (pn_id x) then path_value metric p else 0) (butlast (m # ns))) = 0"
      by (simp only: sum_list_0)
    then show ?thesis unfolding steps_source_sum p(1) using p(2) by (simp del: butlast.simps(2) add: butlast.simps(2) [of n])
  qed
  then show ?thesis unfolding link_flow_def total_value_def by (simp cong: map_cong)
qed

lemma graph_shares:
  assumes "ps = prepare_paths env rows metric (resolveVisibleStages role visible) ctx options"
    and "g = buildFlowGraph env rows metric role palette visible ctx options" "l \<in> set (g_links g)"
    and "whole = sum_list (map (\<lambda>l. if fl_source l \<in> set (first_ids ps) then fl_value l else 0) (g_links g))"
  shows "fl_share l = (if whole > 0 then fl_value l / whole else 0)"
proof -
  obtain ls where g: "g_links g = assignLinkDisplayColors env (share_links (first_ids ps) ls)"
    using graph_shape(2) [OF assms(1) _ assms(2)] by (metis surj_pair)
  have "map link_core (g_links g) = map link_core ls" by (simp add: g colors_core share_core)
  from arg_cong [OF this, of "\<lambda>cs. sum_list (map (\<lambda>(a, b, v). if a \<in> set (first_ids ps) then v else 0) cs)"]
  have "whole = sum_list (map fl_value (filter (\<lambda>l. fl_source l \<in> set (first_ids ps)) ls))"
    by (simp add: assms(4) link_core_def o_def sum_list_map_filter' cong: if_cong)
  then show ?thesis using assms(3) unfolding g assignLinkDisplayColors_def share_links_def Let_def by auto
qed

lemma path_first:
  assumes "list_all node_ok path" "map pn_kind path = stages" "distinct stages" "2 \<le> length stages"
  shows "\<exists>n m ns. path = n # m # ns \<and> of_kind (hd stages) (pn_id n) \<and> (\<forall>x\<in>set (m # ns). \<not> of_kind (hd stages) (pn_id x))"
proof -
  obtain n m ns where path: "path = n # m # ns"
    using assms(2,4) by (cases path; cases "tl path") auto
  have "\<not> of_kind (hd stages) (pn_id x)" if x: "x \<in> set (m # ns)" for x
  proof
    assume "of_kind (hd stages) (pn_id x)"
    moreover have "of_kind (pn_kind x) (pn_id x)" using assms(1) x by (auto simp: path list_all_iff node_ok_def)
    ultimately have "pn_kind x = hd stages" using of_kind_unique by blast
    moreover have "pn_kind x \<in> set (tl stages)" "hd stages \<notin> set (tl stages)" using assms(2,3) x by (auto simp: path)
    ultimately show False by simp
  qed
  moreover have "of_kind (hd stages) (pn_id n)" using assms(1,2) by (auto simp: path node_ok_def)
  ultimately show ?thesis using path by blast
qed

lemma first_ids_kind:
  assumes "\<And>p. p \<in> set ps \<Longrightarrow> \<exists>n m ns. pp_path p = n # m # ns \<and> of_kind k (pn_id n) \<and> (\<forall>x\<in>set (m # ns). \<not> of_kind k (pn_id x))"
  shows "p \<in> set ps \<Longrightarrow> \<exists>n m ns. pp_path p = n # m # ns \<and> pn_id n \<in> set (first_ids ps)
    \<and> (\<forall>x\<in>set (m # ns). pn_id x \<notin> set (first_ids ps))"
proof -
  have k: "of_kind k i" if i: "i \<in> set (first_ids ps)" for i
  proof -
    obtain q n' ns' where q: "q \<in> set ps" "pp_path q = n' # ns'" "i = pn_id n'"
      using i by (auto simp: first_ids_def map_filter_def split: list.splits)
    show ?thesis using assms [OF q(1)] q(2,3) by auto
  qed
  assume p: "p \<in> set ps"
  obtain n m ns where path: "pp_path p = n # m # ns" "of_kind k (pn_id n)" "\<forall>x\<in>set (m # ns). \<not> of_kind k (pn_id x)"
    using assms [OF p] by blast
  have "pn_id n \<noteq> []" using path(2) by (auto simp: of_kind_def startsWith_split js_def)
  then have "pn_id n \<in> set (first_ids ps)" using p path(1) by (force simp: first_ids_def map_filter_def)
  then show ?thesis using path k by blast
qed

text \<open>C6. Merging the small nodes of a stage loses nothing. In the merging mode, whatever the limit, the nodes of
  every visible stage together carry the total of the summary, and the share of a link is its fraction of that total (zero
  when the total is not positive), so that the shares of the links that leave the first stage add up to one.\<close>

theorem aggregate_loses_nothing:
  assumes "\<forall>row\<in>set rows. clean_row row"
    and "g = buildFlowGraph env rows metric role palette visible ctx options"
    and "nullish_or (go_overflowMode options) DEFAULT_FLOW_OVERFLOW_MODE = OverflowAggregate"
    and "stages = resolveVisibleStages role visible" "whole = metricValue (buildSummary rows) metric"
  shows "(\<forall>k\<in>set stages. sum_list (map (\<lambda>n. if fn_kind n = k then fn_value n else 0) (g_nodes g)) = whole)
    \<and> (\<forall>l\<in>set (g_links g). fl_share l = (if whole > 0 then fl_value l / whole else 0))
    \<and> (whole > 0 \<longrightarrow> sum_list (map (\<lambda>l. if of_kind (hd stages) (fl_source l) then fl_share l else 0) (g_links g)) = 1)"
proof -
  define ps where "ps = prepare_paths env rows metric (resolveVisibleStages role visible) ctx options"
  note sums = graph_sums [OF assms(1) ps_def assms(2)]
  have t: "total_value metric ps = whole" using aggregate_total [OF assms(3)] assms(5) by (simp add: ps_def)
  have kinds: "map pn_kind (pp_path p) = stages" "list_all node_ok (pp_path p)" if "p \<in> set ps" for p
    using prepared_ok [OF assms(1) that [unfolded ps_def]] assms(4) by simp_all
  have d: "distinct stages" "2 \<le> length stages" by (simp_all add: assms(4) stages_distinct stages_two)
  note first = path_first [OF kinds(2,1) d]
  have n: "sum_list (map (\<lambda>n. if fn_kind n = k then fn_value n else 0) (g_nodes g)) = whole" if "k \<in> set stages" for k
    using sums [of "\<lambda>i k'. k' = k"] stage_flow [OF kinds(1) d(1) that] t by simp
  have "sum_list (map (\<lambda>l. if fl_source l \<in> set (first_ids ps) then fl_value l else 0) (g_links g)) = whole"
    using sums [where R = "\<lambda>a b. a \<in> set (first_ids ps)"] first_flow [OF first_ids_kind [OF first]] t by simp
  then have s: "fl_share l = (if whole > 0 then fl_value l / whole else 0)" if "l \<in> set (g_links g)" for l
    using graph_shares [OF ps_def assms(2) that] by simp
  have l: "sum_list (map (\<lambda>l. if of_kind (hd stages) (fl_source l) then fl_value l else 0) (g_links g)) = whole"
    using sums [where R = "\<lambda>a b. of_kind (hd stages) a"] first_flow [OF first] t by simp
  have "sum_list (map (\<lambda>l. if of_kind (hd stages) (fl_source l) then fl_share l else 0) (g_links g)) = 1" if w: "whole > 0"
  proof -
    have "sum_list (map (\<lambda>l. if of_kind (hd stages) (fl_source l) then fl_share l else 0) (g_links g)) =
        sum_list (map (\<lambda>l. (if of_kind (hd stages) (fl_source l) then fl_value l else 0) * (1 / whole)) (g_links g))"
      using s w by (intro arg_cong [where f = sum_list] map_cong) auto
    then show ?thesis using w unfolding sum_list_mult_const l by simp
  qed
  then show ?thesis using n s by blast
qed

theorem aggregate_loses_nothing_witness:
  "sum_list (map (\<lambda>n. if fn_kind n = KModel then fn_value n else 0) (g_nodes demo_graph)) = 3
    \<and> sum_list (map (\<lambda>l. if of_kind KToken (fl_source l) then fl_share l else 0) (g_links demo_graph)) = 1"
proof -
  have "metricValue (buildSummary demo_rows) MetricQuota = 3" "hd (resolveVisibleStages FlowUser None) = KToken"
    "KModel \<in> set (resolveVisibleStages FlowUser None)"
    "nullish_or (go_overflowMode demo_graph_options) DEFAULT_FLOW_OVERFLOW_MODE = OverflowAggregate"
    by code_simp+
  note facts = this
  have "(0::jsnum) < 3" by simp
  then show ?thesis using aggregate_loses_nothing [OF demo_rows_clean demo_graph_def facts(4) refl refl] facts(3)
    unfolding facts(1,2) by blast
qed

section \<open>Selections\<close>

text \<open>The elements a map of sets holds under a key; a set is grouped element by element.\<close>

definition ids_of :: "('k, 'a list) jmap \<Rightarrow> 'k \<Rightarrow> 'a set" where
  "ids_of m k = set (nullish_or (map_get m k) [])"

definition sets_ok :: "('k, 'a list) jmap \<Rightarrow> bool" where
  "sets_ok m \<longleftrightarrow> distinct (map fst m) \<and> (\<forall>(k, ids)\<in>set m. ids \<noteq> [])"

abbreviation group_step :: "('x \<Rightarrow> bool) \<Rightarrow> ('x \<Rightarrow> 'k) \<Rightarrow> ('x \<Rightarrow> 'a) \<Rightarrow> ('k, 'a list) jmap \<Rightarrow> 'x \<Rightarrow> ('k, 'a list) jmap" where
  "group_step P K I \<equiv> \<lambda>m x. if \<not> P x then m else map_set (K x) (List.insert (I x) (nullish_or (map_get m (K x)) [])) m"

lemma insert_nonempty: "List.insert i xs \<noteq> []"
  by (auto simp: List.insert_def)

lemma group_step_ok: "sets_ok m \<Longrightarrow> sets_ok (group_step P K I m x)"
  using insert_nonempty [of "I x" "nullish_or (map_get m (K x)) []"]
  by (auto simp: sets_ok_def map_set_distinct dest!: map_set_mem)

lemma group_step_ids: "ids_of (group_step P K I m x) k = ids_of m k \<union> (if P x \<and> K x = k then {I x} else {})"
  by (auto simp: ids_of_def jm.get_put)

lemma group_ids:
  "sets_ok m \<Longrightarrow> sets_ok (foldl (group_step P K I) m xs)
     \<and> ids_of (foldl (group_step P K I) m xs) k = ids_of m k \<union> I ` {x \<in> set xs. P x \<and> K x = k}"
proof (induction xs arbitrary: m)
  case (Cons x xs)
  show ?case using Cons.IH [OF group_step_ok [OF Cons.prems, where P = P and K = K and I = I and x = x]]
    unfolding foldl.simps group_step_ids by auto
qed simp

lemma sets_ok_Nil [simp]: "sets_ok []" "ids_of [] k = {}"
  by (simp_all add: sets_ok_def ids_of_def jm.get_empty)

lemma selected_ids:
  "sets_ok (normalizeSelectedNodeFilters sel stages)"
  "ids_of (normalizeSelectedNodeFilters sel stages) k =
     nf_id ` {f \<in> set (nullish_or sel []). nf_kind f \<in> set stages \<and> nf_kind f = k}"
  using group_ids [of "[]" "\<lambda>f. nf_kind f \<in> set stages" nf_kind nf_id "nullish_or sel []" k]
  by (simp_all add: normalizeSelectedNodeFilters_def)

lemma path_ids: "ids_of (path_ids_by_kind path) k = pn_id ` {n \<in> set path. pn_kind n = k}"
  using group_ids [of "[]" "\<lambda>n. True" pn_kind pn_id path k] by (simp add: path_ids_by_kind_def)

lemma sets_ok_mem: "sets_ok m \<Longrightarrow> (k, ids) \<in> set m \<longleftrightarrow> map_get m k = Some ids"
  by (simp add: sets_ok_def map_get_iff)

lemma ids_of_empty: "sets_ok m \<Longrightarrow> ids_of m k \<noteq> {} \<longleftrightarrow> map_get m k \<noteq> None"
  by (cases "map_get m k") (auto simp: ids_of_def sets_ok_def dest: map_get_mem)

lemma ids_of_get: "map_get m k = Some ids \<Longrightarrow> ids_of m k = set ids"
  by (simp add: ids_of_def)

lemma matches_iff:
  assumes "sets_ok m"
  shows "pathMatchesNodeFilters path m \<longleftrightarrow> (\<forall>k. ids_of m k \<noteq> {} \<longrightarrow> ids_of m k \<inter> ids_of (path_ids_by_kind path) k \<noteq> {})"
proof -
  have e: "(case map_get b k of None \<Rightarrow> False | Some pathIds \<Rightarrow> list_ex (\<lambda>i. i \<in> set pathIds) ids)
      \<longleftrightarrow> set ids \<inter> ids_of b k \<noteq> {}" for b k and ids :: "jstr list"
    by (cases "map_get b k") (auto simp: ids_of_def list_ex_iff)
  have "pathMatchesNodeFilters path m \<longleftrightarrow> (\<forall>(k, ids)\<in>set m. set ids \<inter> ids_of (path_ids_by_kind path) k \<noteq> {})"
    unfolding pathMatchesNodeFilters_def Let_def e by (simp add: list_all_iff)
  also have "\<dots> \<longleftrightarrow> (\<forall>k ids. map_get m k = Some ids \<longrightarrow> set ids \<inter> ids_of (path_ids_by_kind path) k \<noteq> {})"
    using sets_ok_mem [OF assms] by blast
  also have "\<dots> \<longleftrightarrow> (\<forall>k. ids_of m k \<noteq> {} \<longrightarrow> ids_of m k \<inter> ids_of (path_ids_by_kind path) k \<noteq> {})"
    unfolding ids_of_empty [OF assms] using ids_of_get by (metis not_None_eq)
  finally show ?thesis .
qed

lemma builder_ids:
  "ids_of (path_ids_by_kind (flowPathForStages row stages ctx)) k =
     (if k \<in> set stages then {pn_id (NODE_BUILDERS k row ctx)} else {})"
  unfolding path_ids flowPathForStages_def by auto

text \<open>A selection admits a row when, in every visible stage with a selected node, the node of the row is selected.\<close>

definition admits :: "node_filter list option \<Rightarrow> node_kind list \<Rightarrow> path_context \<Rightarrow> flow_row \<Rightarrow> bool" where
  "admits sel stages ctx row \<longleftrightarrow> (\<forall>k\<in>set stages. k \<in> nf_kind ` set (nullish_or sel []) \<longrightarrow>
     \<lparr>nf_kind = k, nf_id = pn_id (NODE_BUILDERS k row ctx)\<rparr> \<in> set (nullish_or sel []))"

lemma matches_admits:
  "pathMatchesNodeFilters (flowPathForStages row stages ctx) (normalizeSelectedNodeFilters sel stages)
     \<longleftrightarrow> admits sel stages ctx row"
proof -
  let ?i = "\<lambda>k. pn_id (NODE_BUILDERS k row ctx)"
  have m: "i \<in> nf_id ` {f \<in> S. nf_kind f = k} \<longleftrightarrow> \<lparr>nf_kind = k, nf_id = i\<rparr> \<in> S" for i k S
  proof
    assume "i \<in> nf_id ` {f \<in> S. nf_kind f = k}"
    then obtain f where "f \<in> S" "nf_kind f = k" "nf_id f = i" by auto
    then show "\<lparr>nf_kind = k, nf_id = i\<rparr> \<in> S" by (cases f) simp
  qed force
  have "ids_of (normalizeSelectedNodeFilters sel stages) k =
      (if k \<in> set stages then nf_id ` {f \<in> set (nullish_or sel []). nf_kind f = k} else {})" for k
    unfolding selected_ids(2) by auto
  then show ?thesis
    unfolding matches_iff [OF selected_ids(1)] builder_ids admits_def by (auto simp: m)
qed

lemma filterRowsByNodes_admits: "filterRowsByNodes rows sel stages ctx = filter (admits sel stages ctx) rows"
proof (cases "normalizeSelectedNodeFilters sel stages")
  case Nil
  have "admits sel stages ctx row" for row
    using matches_admits [of row stages ctx sel] Nil by (simp add: pathMatchesNodeFilters_def)
  then show ?thesis using Nil by (simp add: filterRowsByNodes_def Let_def)
next
  case (Cons e es)
  then show ?thesis unfolding filterRowsByNodes_def Let_def matches_admits by simp
qed

text \<open>C16. The filters of the diagram are exact. A row is counted if and only if its user is selected, or no user is, and
  in every visible stage in which nodes are selected its node is one of them: alternatives within a stage,
  all stages jointly, and selections of hidden stages have no effect. The summary and the graph are both built from
  exactly these rows, in their order.\<close>

theorem node_filter_exact:
  assumes "stages = resolveVisibleStages (nullish_or (bo_role options) DEFAULT_FLOW_ROLE) (bo_visibleStages options)"
    and "users = nullish_or (bo_selectedUsers options) []" "selected = nullish_or (bo_selectedNodes options) []"
    and "counted = filter (\<lambda>row. (users = [] \<or> pn_id (userNode row) \<in> set users)
      \<and> (\<forall>k\<in>set stages. k \<in> nf_kind ` set selected \<longrightarrow>
           \<lparr>nf_kind = k, nf_id = pn_id (NODE_BUILDERS k row (bo_deletedTokenLabel options))\<rparr> \<in> set selected)) rows"
  shows "pf_summary (buildDashboardFlowData env rows metric options) = buildSummary counted
    \<and> pf_flow (buildDashboardFlowData env rows metric options) =
        buildFlowGraph env counted metric (nullish_or (bo_role options) DEFAULT_FLOW_ROLE) (bo_colorPalette options)
          (bo_visibleStages options) (bo_deletedTokenLabel options) (bo_graph options)"
proof -
  have "filterRows rows (bo_selectedUsers options) = filter (\<lambda>row. users = [] \<or> pn_id (userNode row) \<in> set users) rows"
    by (simp add: filterRows_def Let_def assms(2))
  then have "filterRowsByNodes (filterRows rows (bo_selectedUsers options)) (bo_selectedNodes options) stages
      (bo_deletedTokenLabel options) = counted"
    unfolding filterRowsByNodes_admits assms(4) assms(3) by (simp add: admits_def conj_commute)
  then show ?thesis by (simp add: buildDashboardFlowData_def Let_def assms(1))
qed

definition demo_selection :: build_options where
  "demo_selection = \<lparr>bo_role = None, bo_selectedUsers = None,
     bo_selectedNodes = Some [\<lparr>nf_kind = KModel, nf_id = js ''model:m''\<rparr>, \<lparr>nf_kind = KChannel, nf_id = js ''channel:x''\<rparr>],
     bo_colorPalette = None, bo_visibleStages = None, bo_deletedTokenLabel = None, bo_graph = demo_graph_options\<rparr>"

lemma demo_selection_counts:
  "buildSummary (filter (\<lambda>row. (nullish_or (bo_selectedUsers demo_selection) [] = [] \<or>
        pn_id (userNode row) \<in> set (nullish_or (bo_selectedUsers demo_selection) []))
      \<and> (\<forall>k\<in>set (resolveVisibleStages (nullish_or (bo_role demo_selection) DEFAULT_FLOW_ROLE) (bo_visibleStages demo_selection)).
           k \<in> nf_kind ` set (nullish_or (bo_selectedNodes demo_selection) []) \<longrightarrow>
           \<lparr>nf_kind = k, nf_id = pn_id (NODE_BUILDERS k row (bo_deletedTokenLabel demo_selection))\<rparr>
             \<in> set (nullish_or (bo_selectedNodes demo_selection) []))) demo_rows) =
     \<lparr>mt_quota = 2, mt_tokens = 0, mt_requests = 0\<rparr>"
  by code_simp

theorem node_filter_exact_witness:
  "pf_summary (buildDashboardFlowData demo_flow_env demo_rows MetricQuota demo_selection) =
     \<lparr>mt_quota = 2, mt_tokens = 0, mt_requests = 0\<rparr>"
  using node_filter_exact [OF refl refl refl refl, of demo_flow_env demo_rows MetricQuota demo_selection]
  unfolding demo_selection_counts by blast

section \<open>Options\<close>

lemma except_kind: "set (nullish_or (selectedNodeFiltersExceptKind sel k) []) = {f \<in> set (nullish_or sel []). nf_kind f \<noteq> k}"
  by (auto simp: selectedNodeFiltersExceptKind_def Let_def filter_empty_conv)

lemma admits_choice:
  assumes "k \<in> set stages"
  shows "admits (Some (filter (\<lambda>f. nf_kind f \<noteq> k) (nullish_or sel []) @ [\<lparr>nf_kind = k, nf_id = i\<rparr>])) stages ctx row \<longleftrightarrow>
    admits (selectedNodeFiltersExceptKind sel k) stages ctx row \<and> pn_id (NODE_BUILDERS k row ctx) = i"
  using assms unfolding admits_def except_kind by auto

text \<open>What the rows of one node of a stage add up to.\<close>

definition node_total :: "flow_metric \<Rightarrow> node_kind \<Rightarrow> path_context \<Rightarrow> flow_row list \<Rightarrow> jstr \<Rightarrow> jsnum" where
  "node_total metric k ctx rows i =
     sum_list (map (\<lambda>row. metricValue (rowMetrics row) metric) (filter (\<lambda>row. pn_id (NODE_BUILDERS k row ctx) = i) rows))"

lemma node_total_snoc: "node_total metric k ctx (rows @ [row]) i =
    node_total metric k ctx rows i + (if pn_id (NODE_BUILDERS k row ctx) = i then metricValue (rowMetrics row) metric else 0)"
  by (simp add: node_total_def)

lemma node_total_none: "i \<notin> (\<lambda>row. pn_id (NODE_BUILDERS k row ctx)) ` set rows \<Longrightarrow> node_total metric k ctx rows i = 0"
proof -
  assume "i \<notin> (\<lambda>row. pn_id (NODE_BUILDERS k row ctx)) ` set rows"
  then have "filter (\<lambda>row. pn_id (NODE_BUILDERS k row ctx) = i) rows = []" by (auto simp: filter_empty_conv)
  then show ?thesis by (simp add: node_total_def)
qed

definition totals_of :: "(jstr \<Rightarrow> 'k) \<Rightarrow> flow_metric \<Rightarrow> node_kind \<Rightarrow> path_context \<Rightarrow> flow_row list \<Rightarrow> ('k, node_rank) jmap \<Rightarrow> bool" where
  "totals_of K metric k ctx rows totals \<longleftrightarrow> distinct (map fst totals)
     \<and> (\<forall>(key, rank)\<in>set totals. key = K (pn_id (rank_node rank)) \<and> pn_kind (rank_node rank) = k
          \<and> rank_value rank = node_total metric k ctx rows (pn_id (rank_node rank)))
     \<and> fst ` set totals = (\<lambda>row. K (pn_id (NODE_BUILDERS k row ctx))) ` set rows"

lemma map_set_fst: "fst ` set (map_set k v m) = insert k (fst ` set m)"
  by (simp add: map_set_def dom_update)

lemma map_get_none: "map_get m k = None \<longleftrightarrow> k \<notin> fst ` set m"
  by (simp add: map_get_def map_of_eq_None_iff)

lemma map_set_entry: "distinct (map fst m) \<Longrightarrow> (k', w) \<in> set (map_set k v m) \<longleftrightarrow> (if k' = k then w = v else (k', w) \<in> set m)"
  by (auto simp: map_get_iff map_set_distinct jm.get_put)

lemma totals_of_add:
  assumes "totals_of K metric k ctx rows totals" "inj K"
    and "node = NODE_BUILDERS k row ctx" "current = nullish_or (map_get totals (K (pn_id node))) \<lparr>rank_node = node, rank_value = 0\<rparr>"
  shows "totals_of K metric k ctx (rows @ [row])
    (map_set (K (pn_id node)) (current\<lparr>rank_value := rank_value current + metricValue (rowMetrics row) metric\<rparr>) totals)"
proof -
  note t = assms(1) [unfolded totals_of_def]
  have cur: "pn_id (rank_node current) = pn_id node \<and> pn_kind (rank_node current) = k
      \<and> rank_value current = node_total metric k ctx rows (pn_id node)"
  proof (cases "map_get totals (K (pn_id node))")
    case None
    then have "pn_id node \<notin> (\<lambda>row. pn_id (NODE_BUILDERS k row ctx)) ` set rows"
      using t unfolding map_get_none by auto
    then show ?thesis using None by (simp add: assms(3,4) node_total_none)
  next
    case (Some rank)
    have "K (pn_id node) = K (pn_id (rank_node rank)) \<and> pn_kind (rank_node rank) = k
          \<and> rank_value rank = node_total metric k ctx rows (pn_id (rank_node rank))"
      using t map_get_mem [OF Some] by blast
    then show ?thesis using Some injD [OF assms(2), of "pn_id node" "pn_id (rank_node rank)"] by (simp add: assms(4))
  qed
  have "key = K (pn_id (rank_node rank)) \<and> pn_kind (rank_node rank) = k
      \<and> rank_value rank = node_total metric k ctx (rows @ [row]) (pn_id (rank_node rank))"
    if e: "(key, rank) \<in> set (map_set (K (pn_id node)) (current\<lparr>rank_value := rank_value current + metricValue (rowMetrics row) metric\<rparr>) totals)"
    for key rank
  proof (cases "key = K (pn_id node)")
    case True
    then have "rank = current\<lparr>rank_value := rank_value current + metricValue (rowMetrics row) metric\<rparr>"
      using e map_set_entry [of totals] t by auto
    then show ?thesis using cur True by (simp add: node_total_snoc assms(3))
  next
    case False
    then have "(key, rank) \<in> set totals" using e map_set_entry [of totals] t by auto
    then have "key = K (pn_id (rank_node rank)) \<and> pn_kind (rank_node rank) = k
          \<and> rank_value rank = node_total metric k ctx rows (pn_id (rank_node rank))" using t by blast
    then show ?thesis using False by (auto simp: node_total_snoc assms(3))
  qed
  then show ?thesis using t unfolding totals_of_def by (auto simp: map_set_distinct map_set_fst assms(3))
qed

lemma totals_of_Nil: "totals_of K metric k ctx [] []"
  by (simp add: totals_of_def)

lemma filter_key_inj: "inj (\<lambda>i. nodeFilterKey \<lparr>nf_kind = k, nf_id = i\<rparr>)"
  by (rule injI) (simp add: nodeFilterKey_def)

lemma option_totals:
  "totals_of (\<lambda>i. nodeFilterKey \<lparr>nf_kind = k, nf_id = i\<rparr>) metric k ctx rows (foldl (add_option metric k ctx) [] rows)"
proof (induction rows rule: rev_induct)
  case (snoc row rows)
  show ?case using totals_of_add [OF snoc filter_key_inj refl refl, of row] by (simp add: add_option_def Let_def)
qed (simp add: totals_of_Nil)

definition chosen_rows ::
  "flow_row list \<Rightarrow> node_filter list option \<Rightarrow> node_kind list \<Rightarrow> path_context \<Rightarrow> node_kind \<Rightarrow> jstr \<Rightarrow> flow_row list" where
  "chosen_rows rows sel stages ctx k i =
     filterRowsByNodes rows (Some (filter (\<lambda>f. nf_kind f \<noteq> k) (nullish_or sel []) @ [\<lparr>nf_kind = k, nf_id = i\<rparr>])) stages ctx"

lemma chosen_rows_filter:
  "k \<in> set stages \<Longrightarrow> chosen_rows rows sel stages ctx k i =
     filter (\<lambda>row. pn_id (NODE_BUILDERS k row ctx) = i) (filterRowsByNodes rows (selectedNodeFiltersExceptKind sel k) stages ctx)"
  unfolding chosen_rows_def filterRowsByNodes_admits filter_filter by (rule filter_cong) (auto simp: admits_choice)

lemma stage_options_exact:
  assumes "k \<in> set stages" "opts = stage_options env rows metric stages palette ctx sel colors k"
  shows "opt \<in> set opts \<Longrightarrow> no_kind opt = k
      \<and> no_valueRaw opt = metricValue (buildSummary (chosen_rows rows sel stages ctx k (no_value opt))) metric"
    and "no_value ` set opts = {i. chosen_rows rows sel stages ctx k i \<noteq> []}"
    and "distinct (map no_value opts)"
proof -
  define cand where "cand = filterRowsByNodes rows (selectedNodeFiltersExceptKind sel k) stages ctx"
  let ?K = "\<lambda>i. nodeFilterKey \<lparr>nf_kind = k, nf_id = i\<rparr>" and ?id = "\<lambda>row. pn_id (NODE_BUILDERS k row ctx)"
  define totals where "totals = foldl (add_option metric k ctx) [] cand"
  note t = option_totals [of k metric ctx cand, folded totals_def, unfolded totals_of_def]
  note chosen = chosen_rows_filter [OF assms(1), of rows sel ctx, folded cand_def]
  have o: "opts = map (\<lambda>rank. \<lparr>no_kind = pn_kind (rank_node rank), no_value = pn_id (rank_node rank), no_label = pn_label (rank_node rank),
          no_valueLabel = formatNumber env (rank_value rank), no_valueRaw = rank_value rank,
          no_color = nullish_or (map_get colors (pn_id (rank_node rank))) (colorAt env 0 palette)\<rparr>) (map snd totals)"
    by (simp add: assms(2) stage_options_def Let_def totals_def cand_def)
  have tot: "metricValue (buildSummary (chosen_rows rows sel stages ctx k i)) metric = node_total metric k ctx cand i" for i
    by (simp add: summary_total chosen node_total_def)
  show "no_kind opt = k \<and> no_valueRaw opt = metricValue (buildSummary (chosen_rows rows sel stages ctx k (no_value opt))) metric"
    if opt: "opt \<in> set opts"
  proof -
    obtain key rank where "(key, rank) \<in> set totals" "no_kind opt = pn_kind (rank_node rank)"
        "no_value opt = pn_id (rank_node rank)" "no_valueRaw opt = rank_value rank" using opt by (auto simp: o)
    then show ?thesis using t unfolding tot by auto
  qed
  have keys: "map fst totals = map ?K (map no_value opts)" using t by (auto simp: o)
  then show "distinct (map no_value opts)" using t by (metis distinct_map)
  have "?K ` no_value ` set opts = ?K ` ?id ` set cand"
    using arg_cong [OF keys, of set] t by (simp add: image_image)
  then have "no_value ` set opts = ?id ` set cand" unfolding inj_image_eq_iff [OF filter_key_inj] .
  also have "\<dots> = {i. chosen_rows rows sel stages ctx k i \<noteq> []}"
    unfolding chosen by (auto simp: filter_empty_conv)
  finally show "no_value ` set opts = {i. chosen_rows rows sel stages ctx k i \<noteq> []}" .
qed

text \<open>C17. The filter options are exact. A node of a visible stage is on offer if and only if choosing
  it, in place of whatever is selected in its stage and together with the selections of the other stages, leaves some row;
  the value shown beside it is the total of exactly the rows it would leave; and no node is offered
  twice.\<close>

theorem filter_options_exact:
  assumes "opts = buildNodeFilterOptions env rows metric role visible palette ctx selected"
    and "stages = resolveVisibleStages role visible"
    and "\<And>k i. chosen k i = filterRowsByNodes rows
      (Some (filter (\<lambda>f. nf_kind f \<noteq> k) (nullish_or selected []) @ [\<lparr>nf_kind = k, nf_id = i\<rparr>])) stages ctx"
  shows "(\<lambda>opt. (no_kind opt, no_value opt)) ` set opts = {(k, i). k \<in> set stages \<and> chosen k i \<noteq> []}
    \<and> (\<forall>opt\<in>set opts. no_valueRaw opt = metricValue (buildSummary (chosen (no_kind opt) (no_value opt))) metric)
    \<and> distinct (map (\<lambda>opt. (no_kind opt, no_value opt)) opts)"
proof -
  define colors where "colors = stableColorMap env (sort_by (\<lambda>a b. localeCompare env a b \<le> 0)
    (uniq (concat (map (\<lambda>row. map pn_id (flowPathForStages row stages ctx)) rows)))) palette"
  define offered where "offered = stage_options env rows metric stages palette ctx selected colors"
  have o: "opts = sort_by (\<lambda>a b. option_cmp env stages a b \<le> 0) (concat (map offered stages))"
    by (simp add: assms(1,2) buildNodeFilterOptions_def Let_def offered_def colors_def)
  have c: "chosen = chosen_rows rows selected stages ctx" by (intro ext) (simp add: chosen_rows_def assms(3))
  have e: "no_kind opt = k \<and> no_valueRaw opt = metricValue (buildSummary (chosen k (no_value opt))) metric"
    if "k \<in> set stages" "opt \<in> set (offered k)" for k opt
    using stage_options_exact(1) [OF that(1) refl that(2) [unfolded offered_def]] by (simp add: c)
  have i: "no_value ` set (offered k) = {i. chosen k i \<noteq> []}" and d: "distinct (map no_value (offered k))" if "k \<in> set stages" for k
    using stage_options_exact(2,3) [OF that refl] by (simp_all add: c offered_def)
  have "set opts = (\<Union>k\<in>set stages. set (offered k))" unfolding o using mset_eq_setD [OF mset_sort_by] by fastforce
  note set = this
  have "distinct (map (\<lambda>opt. (no_kind opt, no_value opt)) (concat (map offered ks)))"
    if "distinct ks" "set ks \<subseteq> set stages" for ks
    using that
  proof (induction ks)
    case (Cons k ks)
    have "distinct (map snd (map (\<lambda>opt. (no_kind opt, no_value opt)) (offered k)))" using d Cons.prems(2) by (simp add: o_def)
    then have "distinct (map (\<lambda>opt. (no_kind opt, no_value opt)) (offered k))" by (rule distinct_map [THEN iffD1, THEN conjunct1])
    moreover have "no_kind opt = k" if "opt \<in> set (offered k)" for opt using e that Cons.prems(2) by simp
    moreover have "no_kind opt \<noteq> k" if "opt \<in> set (concat (map offered ks))" for opt using e that Cons.prems by auto
    ultimately show ?case using Cons by auto
  qed simp
  then have "distinct (map (\<lambda>opt. (no_kind opt, no_value opt)) opts)"
    unfolding o distinct_map_sort_by using stages_distinct assms(2) by blast
  moreover have "(\<lambda>opt. (no_kind opt, no_value opt)) ` set opts = {(k, i). k \<in> set stages \<and> chosen k i \<noteq> []}"
  proof -
    have "(\<lambda>opt. (no_kind opt, no_value opt)) ` set (offered k) = Pair k ` no_value ` set (offered k)" if "k \<in> set stages" for k
      unfolding image_image by (rule image_cong) (simp_all add: e [OF that])
    then have "(\<lambda>opt. (no_kind opt, no_value opt)) ` set (offered k) = Pair k ` {i. chosen k i \<noteq> []}" if "k \<in> set stages" for k
      using i that by simp
    then show ?thesis unfolding set image_UN by auto
  qed
  moreover have "\<forall>opt\<in>set opts. no_valueRaw opt = metricValue (buildSummary (chosen (no_kind opt) (no_value opt))) metric"
    unfolding set using e by fastforce
  ultimately show ?thesis by blast
qed

lemma demo_choice:
  "KModel \<in> set (resolveVisibleStages FlowUser None)"
  "filterRowsByNodes demo_rows (Some (filter (\<lambda>f. nf_kind f \<noteq> KModel) (nullish_or (bo_selectedNodes demo_selection) [])
      @ [\<lparr>nf_kind = KModel, nf_id = js ''model:n''\<rparr>])) (resolveVisibleStages FlowUser None) None \<noteq> []"
  by code_simp+

theorem filter_options_exact_witness:
  "(KModel, js ''model:n'') \<in> (\<lambda>opt. (no_kind opt, no_value opt)) `
     set (buildNodeFilterOptions demo_flow_env demo_rows MetricQuota FlowUser None None None (bo_selectedNodes demo_selection))"
  using filter_options_exact [OF refl refl refl, of demo_flow_env demo_rows MetricQuota FlowUser None None None
      "bo_selectedNodes demo_selection"] demo_choice by blast

end
