(* ===== verification/Spec2Isabelle.thy ===== *)
theory Spec2Isabelle
  imports JsPrelude Json PgMessage PgStream PgStorage PgChat RouteConfig RouteEditor FlowGraph
begin

end
